theory Spec2Isabelle
  imports Main
begin

section \<open>Coin flip simulator: the program of main.c as HOL functions\<close>

text \<open>
  Every C \<^verbatim>\<open>int\<close> of the program is modelled as an \<^typ>\<open>int\<close>. No computation of the
  program can leave the 32-bit range: the flip count is at most \<open>MAX_FLIPS\<close>, loop indices
  and the six counters of \<open>statistics\<close> are bounded by the flip count (lemma
  \<open>statistics_counters_in_range\<close>). The one place where the width of \<^verbatim>\<open>int\<close> matters is
  \<^verbatim>\<open>scanf("%d")\<close>, whose conversion to 32 bits is written out (\<open>stored\<close>).
\<close>

subsection \<open>Constants\<close>

definition MAX_FLIPS :: int where "MAX_FLIPS = 100000"
definition MIN_FLIPS :: int where "MIN_FLIPS = 1"
definition SEQUENCE_LENGTH :: int where "SEQUENCE_LENGTH = 5"
definition HEADS :: int where "HEADS = 0"
definition TAILS :: int where "TAILS = 1"
definition PAUSE_INTERVAL :: int where "PAUSE_INTERVAL = 20"

text \<open>
  Modelled from the spec: the macro \<^verbatim>\<open>EXIT_FAILURE\<close> comes from \<^verbatim>\<open>stdlib.h\<close>, which is not
  part of the sources. The specification calls it a failure (non-zero) status; the value 1
  is the one of the usual C libraries.
\<close>

definition EXIT_FAILURE :: int where "EXIT_FAILURE = 1"

subsection \<open>The process state\<close>

text \<open>
  Standard input is a list of lines, each classified by what \<^verbatim>\<open>scanf("%d")\<close> does on it:
  \<open>Num n\<close> starts (after optional blanks) with the decimal number \<open>n\<close>, of any size, as
  it is typed; \<open>Bad\<close> starts with something that is no number (a matching failure);
  \<open>Blank\<close> holds white space only. The end of the list is the end of file.
\<close>

datatype line = Num int | Bad | Blank

text \<open>
  What \<^verbatim>\<open>scanf("%d", &input)\<close> stores in the 32-bit \<^verbatim>\<open>int\<close> for the number \<open>n\<close> it has
  read. A number in the range of \<^verbatim>\<open>int\<close> is stored as it is. For the others the C standard
  leaves the result open; the model follows the GNU C library on a system whose
  \<^verbatim>\<open>long\<close> has 64 bits: the digits are converted as \<^verbatim>\<open>strtol\<close> does, which clamps to the
  range of \<^verbatim>\<open>long\<close>, and the assignment to the \<^verbatim>\<open>int\<close> keeps the low 32 bits. So
  4294967297 is stored as 1 and 4294967296 as 0.
\<close>

definition INT_MIN :: int where "INT_MIN = - 2147483648"
definition INT_MAX :: int where "INT_MAX = 2147483647"
definition LONG_MIN :: int where "LONG_MIN = - 9223372036854775808"
definition LONG_MAX :: int where "LONG_MAX = 9223372036854775807"

definition strtol :: "int \<Rightarrow> int" where
  "strtol n = max LONG_MIN (min LONG_MAX n)"

definition int_of_long :: "int \<Rightarrow> int" where
  "int_of_long x = (x + 2147483648) mod 4294967296 - 2147483648"

definition stored :: "int \<Rightarrow> int" where
  "stored n = int_of_long (strtol n)"

text \<open>
  Output is a trace of calls. A \<^verbatim>\<open>printf\<close> is recorded with its format string and its
  arguments, not rendered. \<open>Pct a b\<close> is the argument \<^verbatim>\<open>(double)a / b * 100\<close>, kept as the
  two integers it is computed from (floating point is not modelled).
\<close>

datatype arg = I int | S string | Pct int int

datatype event =
    Printf string "arg list"
  | Eprintf string "arg list"
  | System string

text \<open>
  The two globals \<open>flip_results\<close> (a pointer, \<open>None\<close> for \<^verbatim>\<open>NULL\<close>) and \<open>num_flips\<close>,
  together with the environment the program acts on:
  \<^item> the heap: the list of all blocks allocated so far, a pointer being the position of its
    block in the list. A block is \<open>None\<close> once it is freed, and a cell of a live block is
    \<open>None\<close> while it is uninitialised. Blocks are never reused, so a pointer to a freed
    block stays recognisable;
  \<^item> the allocator: \<open>alloc_fails k\<close> tells whether the \<open>k\<close>-th call of \<^verbatim>\<open>malloc\<close> returns
    \<^verbatim>\<open>NULL\<close>;
  \<^item> the pseudo-random generator: \<open>rand_seq k\<close> is what the \<open>k\<close>-th call of \<^verbatim>\<open>rand\<close>
    returns, a value in \<open>0..RAND_MAX\<close>; the sequence is fixed by the seed;
  \<^item> standard input, and the trace of everything written.
\<close>

record world =
  flip_results :: "nat option"
  num_flips :: int
  heap :: "int option list option list"
  alloc_fails :: "nat \<Rightarrow> bool"
  alloc_calls :: nat
  rand_seq :: "nat \<Rightarrow> nat"
  rand_calls :: nat
  stdin :: "line list"
  out :: "event list"

text \<open>
  What a call can do: never return (\<open>Loops\<close>), end the process through \<^verbatim>\<open>exit\<close>
  (\<open>Exits\<close>, with the status and the state at that moment), have undefined behaviour by
  an invalid memory access (\<open>Fault\<close>), or return a value (\<open>Done\<close>).
\<close>

datatype 'a result = Loops | Exits int world | Fault | Done 'a world

definition and_then :: "'a result \<Rightarrow> ('a \<Rightarrow> world \<Rightarrow> 'b result) \<Rightarrow> 'b result" where
  "and_then r f = (case r of Loops \<Rightarrow> Loops | Exits c w \<Rightarrow> Exits c w | Fault \<Rightarrow> Fault
                   | Done x w \<Rightarrow> f x w)"

subsection \<open>Library calls\<close>

definition printf :: "string \<Rightarrow> arg list \<Rightarrow> world \<Rightarrow> world" where
  "printf fmt args w = w\<lparr>out := out w @ [Printf fmt args]\<rparr>"

definition eprintf :: "string \<Rightarrow> arg list \<Rightarrow> world \<Rightarrow> world" where
  "eprintf fmt args w = w\<lparr>out := out w @ [Eprintf fmt args]\<rparr>"

definition system :: "string \<Rightarrow> world \<Rightarrow> world" where
  "system cmd w = w\<lparr>out := out w @ [System cmd]\<rparr>"

datatype scan = Matched int | Mismatch | Eof

text \<open>
  \<^verbatim>\<open>scanf("%d", &input)\<close> skips white space, line ends included, and then reads a number
  or fails. The line it stops in stays in the input: its unread rest, which ends with the
  line end, is what the following \<open>clear_input_buffer\<close> discards.
\<close>

definition scanf_d :: "world \<Rightarrow> scan \<times> world" where
  "scanf_d w =
     (let ls = dropWhile (\<lambda>l. l = Blank) (stdin w)
      in ((case ls of [] \<Rightarrow> Eof | Num n # _ \<Rightarrow> Matched (stored n) | _ # _ \<Rightarrow> Mismatch),
          w\<lparr>stdin := ls\<rparr>))"

definition rand :: "world \<Rightarrow> nat \<times> world" where
  "rand w = (rand_seq w (rand_calls w), w\<lparr>rand_calls := Suc (rand_calls w)\<rparr>)"

definition block_at :: "world \<Rightarrow> nat \<Rightarrow> int option list option" where
  "block_at w p = (if p < length (heap w) then heap w ! p else None)"

text \<open>\<^verbatim>\<open>malloc(sizeof(int) * n)\<close>: a new block of \<open>n\<close> uninitialised cells, or \<^verbatim>\<open>NULL\<close>.\<close>

definition malloc :: "nat \<Rightarrow> world \<Rightarrow> nat option \<times> world" where
  "malloc n w =
     (if alloc_fails w (alloc_calls w)
      then (None, w\<lparr>alloc_calls := Suc (alloc_calls w)\<rparr>)
      else (Some (length (heap w)),
            w\<lparr>heap := heap w @ [Some (replicate n None)],
              alloc_calls := Suc (alloc_calls w)\<rparr>))"

text \<open>\<^verbatim>\<open>free(p)\<close> for a non-null \<open>p\<close>: undefined unless \<open>p\<close> is a live block.\<close>

definition free :: "nat \<Rightarrow> world \<Rightarrow> world option" where
  "free p w =
     (case block_at w p of None \<Rightarrow> None | Some _ \<Rightarrow> Some (w\<lparr>heap := (heap w)[p := None]\<rparr>))"

text \<open>Reading and writing \<^verbatim>\<open>flip_results[i]\<close>; \<open>None\<close> is an invalid access.\<close>

definition load_flip :: "int \<Rightarrow> world \<Rightarrow> int option" where
  "load_flip i w =
     (case flip_results w of None \<Rightarrow> None
      | Some p \<Rightarrow>
          (case block_at w p of None \<Rightarrow> None
           | Some blk \<Rightarrow> if 0 \<le> i \<and> i < int (length blk) then blk ! nat i else None))"

definition store_flip :: "int \<Rightarrow> int \<Rightarrow> world \<Rightarrow> world option" where
  "store_flip i v w =
     (case flip_results w of None \<Rightarrow> None
      | Some p \<Rightarrow>
          (case block_at w p of None \<Rightarrow> None
           | Some blk \<Rightarrow>
               if 0 \<le> i \<and> i < int (length blk)
               then Some (w\<lparr>heap := (heap w)[p := Some (blk[nat i := Some v])]\<rparr>)
               else None))"

subsection \<open>Input helpers\<close>

text \<open>\<^verbatim>\<open>while ((c = getchar()) != '\n' && c != EOF);\<close> drops the rest of the current line.\<close>

definition clear_input_buffer :: "world \<Rightarrow> world" where
  "clear_input_buffer w = w\<lparr>stdin := (case stdin w of [] \<Rightarrow> [] | _ # rest \<Rightarrow> rest)\<rparr>"

definition pause :: "world \<Rightarrow> world" where
  "pause w = clear_input_buffer (printf ''\<newline>Press Enter to continue...\<newline>'' [] w)"

text \<open>
  The loop of \<open>get_valid_input\<close>. At the end of the input \<^verbatim>\<open>scanf\<close> returns \<^verbatim>\<open>EOF\<close>,
  the prompt is printed, \<open>clear_input_buffer\<close> returns at once and the next round finds the
  same state: the loop never ends. The parameters \<^verbatim>\<open>min\<close> and \<^verbatim>\<open>max\<close> of the source are
  \<open>lo\<close> and \<open>hi\<close> here.
\<close>

function get_valid_input :: "int \<Rightarrow> int \<Rightarrow> world \<Rightarrow> int result" where
  "get_valid_input lo hi w =
     (case scanf_d w of
        (Eof, w1) \<Rightarrow> Loops
      | (Mismatch, w1) \<Rightarrow>
          get_valid_input lo hi
            (clear_input_buffer
               (printf ''Please enter a number between %d and %d: '' [I lo, I hi] w1))
      | (Matched input, w1) \<Rightarrow>
          if input < lo \<or> input > hi
          then get_valid_input lo hi
                 (clear_input_buffer
                    (printf ''Please enter a number between %d and %d: '' [I lo, I hi] w1))
          else Done input (clear_input_buffer w1))"
  by pat_completeness auto

lemma length_dropWhile_tl: "dropWhile P xs = y # ys \<Longrightarrow> length ys < length xs"
proof -
  assume h: "dropWhile P xs = y # ys"
  have "length (dropWhile P xs) \<le> length xs" by (rule length_dropWhile_le)
  with h show ?thesis by simp
qed

termination get_valid_input
  by (relation "measure (\<lambda>(mn, mx, w). length (stdin w))")
     (auto simp: scanf_d_def clear_input_buffer_def printf_def Let_def
           split: list.splits line.splits dest: length_dropWhile_tl)

declare get_valid_input.simps [simp del]

definition display_menu :: "world \<Rightarrow> world" where
  "display_menu w =
     printf ''==========================================\<newline>'' []
       (printf ''0 - Exit program\<newline>'' []
          (printf ''3 - Show pattern statistics\<newline>'' []
             (printf ''2 - Display flip results\<newline>'' []
                (printf ''1 - Generate coin flips\<newline>'' []
                   (printf ''================ MAIN MENU ===============\<newline>'' [] w)))))"

subsection \<open>generate_flips\<close>

text \<open>The loop \<^verbatim>\<open>for(int i = 0; i < requested_flips; i++) flip_results[i] = rand() % 2;\<close>\<close>

function generate_flips_loop :: "int \<Rightarrow> int \<Rightarrow> world \<Rightarrow> world option" where
  "generate_flips_loop i requested_flips w =
     (if i < requested_flips
      then (case rand w of
              (r, w1) \<Rightarrow>
                (case store_flip i (int r mod 2) w1 of
                   None \<Rightarrow> None
                 | Some w2 \<Rightarrow> generate_flips_loop (i + 1) requested_flips w2))
      else Some w)"
  by pat_completeness auto

termination generate_flips_loop
  by (relation "measure (\<lambda>(i, requested_flips, w). nat (requested_flips - i))") auto

declare generate_flips_loop.simps [simp del]

text \<open>
  The size \<^verbatim>\<open>sizeof(int) * requested_flips\<close> is passed to \<open>malloc\<close> as the number of
  cells; \<open>requested_flips\<close> is at least \<open>MIN_FLIPS\<close> there, so \<open>nat\<close> loses nothing.
  \<open>rand() % 2\<close> has a non-negative left operand, where C's \<^verbatim>\<open>%\<close> is \<open>mod\<close>.
\<close>

definition generate_flips :: "world \<Rightarrow> int result" where
  "generate_flips w =
     and_then
       (get_valid_input MIN_FLIPS MAX_FLIPS
          (printf ''(Range: %d - %d): '' [I MIN_FLIPS, I MAX_FLIPS]
             (printf ''How many coin flips would you like to generate?\<newline>'' [] w)))
       (\<lambda>requested_flips w1.
          case (case flip_results w1 of
                  None \<Rightarrow> Some w1
                | Some p \<Rightarrow> map_option (\<lambda>w'. w'\<lparr>flip_results := None\<rparr>) (free p w1)) of
            None \<Rightarrow> Fault
          | Some w2 \<Rightarrow>
              (case malloc (nat requested_flips) w2 of
                 (p, w3) \<Rightarrow>
                   (let w4 = w3\<lparr>flip_results := p\<rparr>
                    in if flip_results w4 = None
                       then Exits EXIT_FAILURE (eprintf ''Memory allocation error!\<newline>'' [] w4)
                       else (case generate_flips_loop 0 requested_flips w4 of
                               None \<Rightarrow> Fault
                             | Some w5 \<Rightarrow> Done requested_flips w5))))"

subsection \<open>display_flips\<close>

definition flip_to_string :: "int \<Rightarrow> string" where
  "flip_to_string flip =
     (if flip = HEADS then ''HEADS'' else if flip = TAILS then ''TAILS'' else ''UNKNOWN'')"

function display_flips_loop :: "int \<Rightarrow> world \<Rightarrow> world option" where
  "display_flips_loop i w =
     (if i < num_flips w
      then (case load_flip i w of
              None \<Rightarrow> None
            | Some v \<Rightarrow>
                display_flips_loop (i + 1)
                  ((if (i + 1) mod PAUSE_INTERVAL = 0 \<and> i < num_flips w - 1 then pause else id)
                     (printf ''%6d  |   %d   | %s\<newline>'' [I (i + 1), I v, S (flip_to_string v)] w)))
      else Some w)"
  by pat_completeness auto

termination display_flips_loop
  by (relation "measure (\<lambda>(i, w). nat (num_flips w - i))")
     (auto simp: pause_def printf_def clear_input_buffer_def)

declare display_flips_loop.simps [simp del]

definition display_flips :: "world \<Rightarrow> unit result" where
  "display_flips w =
     (if num_flips w = 0
      then Done () (printf ''No flips have been generated yet.\<newline>'' [] w)
      else (case display_flips_loop 0 w of
              None \<Rightarrow> Fault
            | Some w1 \<Rightarrow>
                Done ()
                  (printf ''Total flips displayed: %d\<newline>'' [I (num_flips w1)]
                     (printf ''========================\<newline>'' [] w1))))"

subsection \<open>statistics\<close>

record counters =
  heads_sequences :: int
  tails_sequences :: int
  current_heads_streak :: int
  current_tails_streak :: int
  total_heads :: int
  total_tails :: int

text \<open>The body of the loop of \<open>statistics\<close>, for the value \<open>v\<close> of \<^verbatim>\<open>flip_results[i]\<close>.\<close>

definition statistics_body :: "int \<Rightarrow> counters \<Rightarrow> counters" where
  "statistics_body v c =
     (if v = HEADS
      then (let c1 = c\<lparr>total_heads := total_heads c + 1,
                        current_heads_streak := current_heads_streak c + 1,
                        current_tails_streak := 0\<rparr>
            in if current_heads_streak c1 = SEQUENCE_LENGTH
               then c1\<lparr>heads_sequences := heads_sequences c1 + 1\<rparr> else c1)
      else (let c1 = c\<lparr>total_tails := total_tails c + 1,
                        current_tails_streak := current_tails_streak c + 1,
                        current_heads_streak := 0\<rparr>
            in if current_tails_streak c1 = SEQUENCE_LENGTH
               then c1\<lparr>tails_sequences := tails_sequences c1 + 1\<rparr> else c1))"

function statistics_loop :: "int \<Rightarrow> counters \<Rightarrow> world \<Rightarrow> counters option" where
  "statistics_loop i c w =
     (if i < num_flips w
      then (case load_flip i w of
              None \<Rightarrow> None
            | Some v \<Rightarrow> statistics_loop (i + 1) (statistics_body v c) w)
      else Some c)"
  by pat_completeness auto

termination statistics_loop
  by (relation "measure (\<lambda>(i, c, w). nat (num_flips w - i))") auto

declare statistics_loop.simps [simp del]

definition initial_counters :: counters where
  "initial_counters =
     \<lparr>heads_sequences = 0, tails_sequences = 0, current_heads_streak = 0,
      current_tails_streak = 0, total_heads = 0, total_tails = 0\<rparr>"

definition statistics :: "world \<Rightarrow> unit result" where
  "statistics w =
     (if num_flips w = 0
      then Done ()
             (printf ''Please use option 1 to generate flips first.\<newline>'' []
                (printf ''No flips have been generated yet.\<newline>'' [] w))
      else (case statistics_loop 0 initial_counters w of
              None \<Rightarrow> Fault
            | Some c \<Rightarrow>
                Done ()
                  (printf ''Total consecutive sequences found: %d\<newline>''
                       [I (heads_sequences c + tails_sequences c)]
                  (printf ''Sequences of %d consecutive TAILS: %d\<newline>''
                       [I SEQUENCE_LENGTH, I (tails_sequences c)]
                  (printf ''Sequences of %d consecutive HEADS: %d\<newline>''
                       [I SEQUENCE_LENGTH, I (heads_sequences c)]
                  (printf ''==============================\<newline>'' []
                  (printf ''\<newline>CONSECUTIVE SEQUENCE ANALYSIS:\<newline>'' []
                  (printf ''Total Tails: %d (%.1f%%)\<newline>''
                       [I (total_tails c), Pct (total_tails c) (num_flips w)]
                  (printf ''Total Heads: %d (%.1f%%)\<newline>''
                       [I (total_heads c), Pct (total_heads c) (num_flips w)]
                  (printf ''==================\<newline>'' []
                  (printf ''FLIP DISTRIBUTION:\<newline>'' [] w)))))))))))"

subsection \<open>The menu loop\<close>

text \<open>The branch of \<open>clear_screen\<close> for systems other than Windows.\<close>

definition clear_screen :: "world \<Rightarrow> world" where
  "clear_screen w = system ''clear'' w"

text \<open>
  One round of the \<^verbatim>\<open>do ... while (choice != 0)\<close> loop of \<open>main\<close>, in two parts: the
  \<^verbatim>\<open>switch\<close> with the pause that follows it (\<open>menu_dispatch\<close>), and the menu with its
  prompt before it. A round returns \<open>choice\<close>.
\<close>

definition menu_dispatch :: "int \<Rightarrow> world \<Rightarrow> int result" where
  "menu_dispatch choice w1 =
     and_then
       (let w2 = printf ''\<newline>'' [] w1
        in if choice = 1
           then and_then (generate_flips w2)
                  (\<lambda>r w3. Done ()
                     (let w4 = w3\<lparr>num_flips := r\<rparr>
                      in if num_flips w4 > 0
                         then printf ''\<newline>Successfully generated %d coin flips!\<newline>''
                                [I (num_flips w4)] w4
                         else w4))
           else if choice = 2 then display_flips w2
           else if choice = 3 then statistics w2
           else if choice = 0
           then Done () (printf ''Thank you for using the Coin Flip Simulator!\<newline>'' [] w2)
           else Done () (printf ''Invalid choice. Please try again.\<newline>'' [] w2))
       (\<lambda>_ w5. Done choice (if choice \<noteq> 0 then clear_screen (pause w5) else w5))"

definition menu_round :: "world \<Rightarrow> int result" where
  "menu_round w =
     and_then
       (get_valid_input 0 3 (printf ''Enter your choice (0-3): '' [] (display_menu w)))
       menu_dispatch"

subsection \<open>Notions used to state the properties\<close>

text \<open>The block \<open>flip_results\<close> points to, if there is one.\<close>

definition buffer :: "world \<Rightarrow> int option list option" where
  "buffer w = (case flip_results w of None \<Rightarrow> None | Some p \<Rightarrow> block_at w p)"

text \<open>
  The session-state invariant: either there is no buffer (\<open>flip_results\<close> is \<^verbatim>\<open>NULL\<close> and
  \<open>num_flips\<close> is 0), or \<open>flip_results\<close> points to a live block whose length is
  \<open>num_flips\<close>, a number from \<open>MIN_FLIPS\<close> to \<open>MAX_FLIPS\<close>.
\<close>

definition session_inv :: "world \<Rightarrow> bool" where
  "session_inv w =
     (case flip_results w of
        None \<Rightarrow> num_flips w = 0
      | Some p \<Rightarrow>
          (case block_at w p of
             None \<Rightarrow> False
           | Some blk \<Rightarrow>
               int (length blk) = num_flips w \<and> MIN_FLIPS \<le> num_flips w \<and>
               num_flips w \<le> MAX_FLIPS))"

text \<open>Every cell of the buffer, if there is one, holds \<open>HEADS\<close> or \<open>TAILS\<close>.\<close>

definition outcomes_only :: "world \<Rightarrow> bool" where
  "outcomes_only w =
     (case buffer w of
        None \<Rightarrow> True
      | Some blk \<Rightarrow> list_all (\<lambda>c. c = Some HEADS \<or> c = Some TAILS) blk)"

text \<open>\<open>flip_results\<close> is \<^verbatim>\<open>NULL\<close> or points to a live block: what \<^verbatim>\<open>free\<close> needs.\<close>

definition pointer_ok :: "world \<Rightarrow> bool" where
  "pointer_ok w = (case flip_results w of None \<Rightarrow> True | Some p \<Rightarrow> block_at w p \<noteq> None)"

text \<open>The heap once the block of \<open>flip_results\<close>, if any, is freed.\<close>

definition released :: "world \<Rightarrow> int option list option list" where
  "released w = (case flip_results w of None \<Rightarrow> heap w | Some p \<Rightarrow> (heap w)[p := None])"

text \<open>
  A line that \<open>get_valid_input lo hi\<close> accepts, and the message it prints for every other
  line that is not blank.
\<close>

definition accepted :: "int \<Rightarrow> int \<Rightarrow> line \<Rightarrow> bool" where
  "accepted lo hi l = (case l of Num n \<Rightarrow> lo \<le> stored n \<and> stored n \<le> hi | _ \<Rightarrow> False)"

definition prompt :: "int \<Rightarrow> int \<Rightarrow> event" where
  "prompt lo hi = Printf ''Please enter a number between %d and %d: '' [I lo, I hi]"

text \<open>The state in which \<open>generate_flips\<close> starts to read the count.\<close>

definition flips_prompt :: "world \<Rightarrow> world" where
  "flips_prompt w =
     printf ''(Range: %d - %d): '' [I MIN_FLIPS, I MAX_FLIPS]
       (printf ''How many coin flips would you like to generate?\<newline>'' [] w)"

text \<open>
  What \<open>generate_flips\<close> has written when it has read the count, the lines \<open>ls\<close> before the
  count having been rejected.
\<close>

definition gen_out :: "world \<Rightarrow> line list \<Rightarrow> event list" where
  "gen_out w ls = out w @
                       [Printf ''How many coin flips would you like to generate?\<newline>'' [],
                        Printf ''(Range: %d - %d): '' [I MIN_FLIPS, I MAX_FLIPS]] @
                       replicate (length (filter (\<lambda>l. l \<noteq> Blank) ls)) (prompt MIN_FLIPS MAX_FLIPS)"

text \<open>The outcomes of \<open>n\<close> calls of \<^verbatim>\<open>rand() % 2\<close>, the first being call number \<open>c\<close>.\<close>

definition random_flips :: "(nat \<Rightarrow> nat) \<Rightarrow> nat \<Rightarrow> nat \<Rightarrow> int list" where
  "random_flips rs c n = map (\<lambda>j. int (rs (c + j)) mod 2) [0..<n]"

text \<open>
  A run is a maximal consecutive subsequence of identical outcomes: \<open>maximal_runs\<close> lists
  the runs of a sequence from left to right, each with its outcome and its length, and
  \<open>run_count v\<close> counts the runs of outcome \<open>v\<close> that have at least 5 elements.
\<close>

fun maximal_runs :: "'a list \<Rightarrow> ('a \<times> nat) list" where
  "maximal_runs [] = []"
| "maximal_runs (x # xs) =
     (case maximal_runs xs of
        [] \<Rightarrow> [(x, 1)]
      | (y, n) # rs \<Rightarrow> if x = y then (y, Suc n) # rs else (x, 1) # (y, n) # rs)"

definition run_count :: "int \<Rightarrow> int list \<Rightarrow> int" where
  "run_count v xs = int (length (filter (\<lambda>(x, n). x = v \<and> 5 \<le> n) (maximal_runs xs)))"

text \<open>The loop of \<open>statistics\<close> seen as a left fold of its body over the flips.\<close>

fun statistics_fold :: "counters \<Rightarrow> int list \<Rightarrow> counters" where
  "statistics_fold c [] = c"
| "statistics_fold c (v # vs) = statistics_fold (statistics_body v c) vs"

text \<open>
  What \<open>statistics\<close> writes for \<open>n\<close> flips when its counters end with the given totals and
  run counts.
\<close>

definition report :: "int \<Rightarrow> int \<Rightarrow> int \<Rightarrow> int \<Rightarrow> int \<Rightarrow> event list" where
  "report n heads tails heads_runs tails_runs =
     [Printf ''FLIP DISTRIBUTION:\<newline>'' [],
      Printf ''==================\<newline>'' [],
      Printf ''Total Heads: %d (%.1f%%)\<newline>'' [I heads, Pct heads n],
      Printf ''Total Tails: %d (%.1f%%)\<newline>'' [I tails, Pct tails n],
      Printf ''\<newline>CONSECUTIVE SEQUENCE ANALYSIS:\<newline>'' [],
      Printf ''==============================\<newline>'' [],
      Printf ''Sequences of %d consecutive HEADS: %d\<newline>'' [I SEQUENCE_LENGTH, I heads_runs],
      Printf ''Sequences of %d consecutive TAILS: %d\<newline>'' [I SEQUENCE_LENGTH, I tails_runs],
      Printf ''Total consecutive sequences found: %d\<newline>'' [I (heads_runs + tails_runs)]]"

text \<open>A state that holds the flips \<open>xs\<close> in its only block, with nothing left to read.\<close>

definition holding :: "int list \<Rightarrow> world" where
  "holding xs =
     \<lparr>flip_results = Some 0, num_flips = int (length xs), heap = [Some (map Some xs)],
      alloc_fails = (\<lambda>k. False), alloc_calls = 1, rand_seq = (\<lambda>k. 0), rand_calls = length xs,
      stdin = [], out = []\<rparr>"

text \<open>
  What \<open>display_flips\<close> writes for a buffer \<open>xs\<close>: the line of flip \<open>i\<close>, followed by the
  message of \<open>pause\<close> after every \<open>PAUSE_INTERVAL\<close>-th line but the last one;
  \<open>table_events xs k\<close> are the lines from flip \<open>k\<close> on, \<open>pauses n k\<close> the number of pauses
  among them.
\<close>

definition pause_after :: "int \<Rightarrow> nat \<Rightarrow> bool" where
  "pause_after n i = ((int i + 1) mod PAUSE_INTERVAL = 0 \<and> int i < n - 1)"

definition row_events :: "int \<Rightarrow> nat \<Rightarrow> int \<Rightarrow> event list" where
  "row_events n i v =
     Printf ''%6d  |   %d   | %s\<newline>'' [I (int i + 1), I v, S (flip_to_string v)] #
     (if pause_after n i then [Printf ''\<newline>Press Enter to continue...\<newline>'' []] else [])"

definition table_events :: "int list \<Rightarrow> nat \<Rightarrow> event list" where
  "table_events xs k = concat (map (\<lambda>i. row_events (int (length xs)) i (xs ! i)) [k..<length xs])"

definition pauses :: "nat \<Rightarrow> nat \<Rightarrow> nat" where
  "pauses n k = length (filter (pause_after (int n)) [k..<n])"

text \<open>The strings and the divisors among the arguments of an output event.\<close>

fun arg_strings :: "event \<Rightarrow> string list" where
  "arg_strings (Printf f args) = concat (map (\<lambda>a. case a of S s \<Rightarrow> [s] | _ \<Rightarrow> []) args)"
| "arg_strings (Eprintf f args) = concat (map (\<lambda>a. case a of S s \<Rightarrow> [s] | _ \<Rightarrow> []) args)"
| "arg_strings (System cmd) = []"

fun divisors :: "event \<Rightarrow> int list" where
  "divisors (Printf f args) = concat (map (\<lambda>a. case a of Pct x y \<Rightarrow> [y] | _ \<Rightarrow> []) args)"
| "divisors (Eprintf f args) = concat (map (\<lambda>a. case a of Pct x y \<Rightarrow> [y] | _ \<Rightarrow> []) args)"
| "divisors (System cmd) = []"

text \<open>
  The state in which \<open>main\<close> starts, for a given input, generator and allocator.
\<close>

definition at_start :: "line list \<Rightarrow> (nat \<Rightarrow> nat) \<Rightarrow> (nat \<Rightarrow> bool) \<Rightarrow> world" where
  "at_start ls rs af =
     \<lparr>flip_results = None, num_flips = 0, heap = [], alloc_fails = af, alloc_calls = 0,
      rand_seq = rs, rand_calls = 0, stdin = ls, out = []\<rparr>"

text \<open>
  What a round of the menu writes before it reads the choice, a start state with a
  generator that returns 0 and an allocator that never fails, and the output of a call.
\<close>

definition menu_text :: "event list" where
  "menu_text =
     [Printf ''================ MAIN MENU ===============\<newline>'' [],
      Printf ''1 - Generate coin flips\<newline>'' [],
      Printf ''2 - Display flip results\<newline>'' [],
      Printf ''3 - Show pattern statistics\<newline>'' [],
      Printf ''0 - Exit program\<newline>'' [],
      Printf ''==========================================\<newline>'' [],
      Printf ''Enter your choice (0-3): '' []]"

definition started :: "line list \<Rightarrow> world" where
  "started ls = at_start ls (\<lambda>k. 0) (\<lambda>k. False)"


text \<open>
  The message of the \<^verbatim>\<open>default\<close> branch of the \<^verbatim>\<open>switch\<close> of \<open>main\<close>. The state \<open>x\<close> is
  \<open>since w\<close> when its output is that of \<open>w\<close> with events after it, none of them this
  message; a result is \<open>quiet\<close> when the state it ends in, if there is one, is.
\<close>

definition invalid_choice :: event where
  "invalid_choice = Printf ''Invalid choice. Please try again.\<newline>'' []"



section \<open>Properties\<close>

subsection \<open>Maximal runs\<close>

lemma maximal_runs_concat: "concat (map (\<lambda>(x, n). replicate n x) (maximal_runs xs)) = xs"
  by (induction xs) (auto split: list.splits)

lemma maximal_runs_adjacent: "distinct_adj (map fst (maximal_runs xs))"
  by (induction xs) (auto split: list.splits)

lemma maximal_runs_positive: "(x, n) \<in> set (maximal_runs xs) \<Longrightarrow> 0 < n"
  by (induction xs arbitrary: x n) (auto split: list.splits if_splits)

lemma maximal_runs_head: "\<exists>n rs. maximal_runs (x # xs) = (x, n) # rs"
  by (auto split: list.splits)

lemma maximal_runs_replicate_other:
  "x \<noteq> h \<Longrightarrow> 0 < k \<Longrightarrow> maximal_runs (replicate k h @ x # xs) = (h, k) # maximal_runs (x # xs)"
proof (induction k)
  case 0 then show ?case by simp
next
  case (Suc k)
  show ?case
  proof (cases "k = 0")
    case True
    obtain n rs where "maximal_runs (x # xs) = (x, n) # rs"
      using maximal_runs_head[of x xs] by blast
    with True Suc.prems show ?thesis by simp
  next
    case False
    with Suc show ?thesis by simp
  qed
qed

lemma maximal_runs_replicate: "0 < k \<Longrightarrow> maximal_runs (replicate k h) = [(h, k)]"
proof (induction k)
  case 0 then show ?case by simp
next
  case (Suc k) then show ?case by (cases "k = 0") auto
qed

lemma run_count_other: "x \<noteq> v \<Longrightarrow> run_count v (x # xs) = run_count v xs"
  by (auto simp: run_count_def split: list.splits)

lemma run_count_replicate_other:
  assumes "x \<noteq> v"
  shows "run_count v (replicate k v @ x # xs) = (if 5 \<le> k then 1 else 0) + run_count v xs"
proof (cases "k = 0")
  case True with assms show ?thesis by (simp add: run_count_other)
next
  case False
  with assms have "maximal_runs (replicate k v @ x # xs) = (v, k) # maximal_runs (x # xs)"
    by (simp add: maximal_runs_replicate_other)
  then have "run_count v (replicate k v @ x # xs)
             = (if 5 \<le> k then 1 else 0) + run_count v (x # xs)"
    by (simp add: run_count_def)
  with assms show ?thesis by (simp add: run_count_other)
qed

lemma run_count_replicate: "run_count v (replicate k v) = (if 5 \<le> k then 1 else 0)"
  by (cases "k = 0") (simp_all add: run_count_def maximal_runs_replicate)

subsection \<open>The statistics pass\<close>

lemma heads_fold:
  "0 \<le> current_heads_streak c \<Longrightarrow>
   heads_sequences (statistics_fold c xs) =
     heads_sequences c + run_count HEADS (replicate (nat (current_heads_streak c)) HEADS @ xs)
       - (if 5 \<le> current_heads_streak c then 1 else 0)"
proof (induction xs arbitrary: c)
  case Nil
  then show ?case by (auto simp: run_count_replicate)
next
  case (Cons x xs)
  show ?case
  proof (cases "x = HEADS")
    case True
    let ?c = "statistics_body x c"
    have s: "current_heads_streak ?c = current_heads_streak c + 1"
      using True by (simp add: statistics_body_def Let_def)
    have h: "heads_sequences ?c = heads_sequences c + (if current_heads_streak c + 1 = 5 then 1 else 0)"
      using True by (simp add: statistics_body_def Let_def SEQUENCE_LENGTH_def)
    have r: "replicate (nat (current_heads_streak ?c)) HEADS @ xs
             = replicate (nat (current_heads_streak c)) HEADS @ x # xs"
      using True Cons.prems s by (simp add: nat_add_distrib replicate_app_Cons_same)
    have "0 \<le> current_heads_streak ?c" using s Cons.prems by simp
    from Cons.IH[OF this] show ?thesis
      unfolding r using s h by auto
  next
    case False
    let ?c = "statistics_body x c"
    have s: "current_heads_streak ?c = 0"
      using False by (simp add: statistics_body_def Let_def)
    have h: "heads_sequences ?c = heads_sequences c"
      using False by (simp add: statistics_body_def Let_def)
    have "0 \<le> current_heads_streak ?c" using s by simp
    from Cons.IH[OF this] have "heads_sequences (statistics_fold ?c xs) = heads_sequences c + run_count HEADS xs"
      using s h by simp
    moreover have "run_count HEADS (replicate (nat (current_heads_streak c)) HEADS @ x # xs)
       = (if 5 \<le> nat (current_heads_streak c) then 1 else 0) + run_count HEADS xs"
      using False by (rule run_count_replicate_other)
    ultimately show ?thesis using Cons.prems by auto
  qed
qed


lemma tails_fold:
  "0 \<le> current_tails_streak c \<Longrightarrow> set xs \<subseteq> {HEADS, TAILS} \<Longrightarrow>
   tails_sequences (statistics_fold c xs) =
     tails_sequences c + run_count TAILS (replicate (nat (current_tails_streak c)) TAILS @ xs)
       - (if 5 \<le> current_tails_streak c then 1 else 0)"
proof (induction xs arbitrary: c)
  case Nil
  then show ?case by (auto simp: run_count_replicate)
next
  case (Cons x xs)
  have xs: "set xs \<subseteq> {HEADS, TAILS}" using Cons.prems by simp
  show ?case
  proof (cases "x = HEADS")
    case False
    then have xT: "x = TAILS" using Cons.prems by auto
    let ?c = "statistics_body x c"
    have s: "current_tails_streak ?c = current_tails_streak c + 1"
      using False by (simp add: statistics_body_def Let_def)
    have h: "tails_sequences ?c = tails_sequences c + (if current_tails_streak c + 1 = 5 then 1 else 0)"
      using False by (simp add: statistics_body_def Let_def SEQUENCE_LENGTH_def)
    have r: "replicate (nat (current_tails_streak ?c)) TAILS @ xs
             = replicate (nat (current_tails_streak c)) TAILS @ x # xs"
      using xT Cons.prems s by (simp add: nat_add_distrib replicate_app_Cons_same)
    have "0 \<le> current_tails_streak ?c" using s Cons.prems by simp
    from Cons.IH[OF this xs] show ?thesis
      unfolding r using s h by auto
  next
    case True
    let ?c = "statistics_body x c"
    have s: "current_tails_streak ?c = 0"
      using True by (simp add: statistics_body_def Let_def)
    have h: "tails_sequences ?c = tails_sequences c"
      using True by (simp add: statistics_body_def Let_def)
    have "0 \<le> current_tails_streak ?c" using s by simp
    from Cons.IH[OF this xs] have "tails_sequences (statistics_fold ?c xs) = tails_sequences c + run_count TAILS xs"
      using s h by simp
    moreover have "x \<noteq> TAILS" using True by (simp add: HEADS_def TAILS_def)
    then have "run_count TAILS (replicate (nat (current_tails_streak c)) TAILS @ x # xs)
       = (if 5 \<le> nat (current_tails_streak c) then 1 else 0) + run_count TAILS xs"
      by (rule run_count_replicate_other)
    ultimately show ?thesis using Cons.prems by auto
  qed
qed

lemma totals_fold:
  "total_heads (statistics_fold c xs) = total_heads c + int (length (filter (\<lambda>v. v = HEADS) xs)) \<and>
   total_tails (statistics_fold c xs) = total_tails c + int (length (filter (\<lambda>v. v \<noteq> HEADS) xs))"
  by (induction xs arbitrary: c) (auto simp: statistics_body_def Let_def)

lemma load_flip_buffer:
  "buffer w = Some (map Some xs) \<Longrightarrow> k < length xs \<Longrightarrow> load_flip (int k) w = Some (xs ! k)"
  by (auto simp: buffer_def load_flip_def split: option.splits)

lemma statistics_loop_fold:
  "buffer w = Some (map Some xs) \<Longrightarrow> num_flips w = int (length xs) \<Longrightarrow> k \<le> length xs \<Longrightarrow>
   statistics_loop (int k) c w = Some (statistics_fold c (drop k xs))"
proof (induction "length xs - k" arbitrary: k c)
  case 0
  then show ?case by (simp add: statistics_loop.simps)
next
  case (Suc d)
  then have k: "k < length xs" by simp
  have "statistics_loop (int k) c w = statistics_loop (int (Suc k)) (statistics_body (xs ! k) c) w"
    using k Suc.prems by (subst statistics_loop.simps) (simp add: load_flip_buffer add.commute)
  also have "\<dots> = Some (statistics_fold (statistics_body (xs ! k) c) (drop (Suc k) xs))"
    using Suc.hyps(2) k Suc.prems by (intro Suc.hyps(1)) auto
  also have "\<dots> = Some (statistics_fold c (drop k xs))"
    using k by (simp add: Cons_nth_drop_Suc[symmetric])
  finally show ?case .
qed

lemma statistics_report:
  assumes "statistics_loop 0 initial_counters w = Some c" and "num_flips w \<noteq> 0"
  shows "statistics w =
           Done () (w\<lparr>out := out w @
                      report (num_flips w) (total_heads c) (total_tails c)
                        (heads_sequences c) (tails_sequences c)\<rparr>)"
  using assms by (simp add: statistics_def printf_def report_def)

lemma statistics_buffer:
  assumes "buffer w = Some (map Some xs)" and "num_flips w = int (length xs)" and "xs \<noteq> []"
  shows "statistics w =
           Done () (w\<lparr>out := out w @
                      report (int (length xs))
                        (int (length (filter (\<lambda>v. v = HEADS) xs)))
                        (int (length (filter (\<lambda>v. v \<noteq> HEADS) xs)))
                        (heads_sequences (statistics_fold initial_counters xs))
                        (tails_sequences (statistics_fold initial_counters xs))\<rparr>)"
proof -
  have "statistics_loop (int 0) initial_counters w
        = Some (statistics_fold initial_counters (drop 0 xs))"
    using assms(1,2) by (rule statistics_loop_fold) simp
  then have l: "statistics_loop 0 initial_counters w = Some (statistics_fold initial_counters xs)"
    by simp
  have n: "num_flips w \<noteq> 0" using assms(2,3) by simp
  show ?thesis
    unfolding statistics_report[OF l n]
    using totals_fold[of initial_counters xs] assms(2) by (simp add: initial_counters_def)
qed

text \<open>
  The counters stay between 0 and the number of flips, which is at most \<open>MAX_FLIPS\<close>:
  no increment of the loop can overflow a C \<^verbatim>\<open>int\<close>.
\<close>

lemma statistics_body_bounds:
  "heads_sequences c \<le> heads_sequences (statistics_body v c) \<and>
   heads_sequences (statistics_body v c) \<le> heads_sequences c + 1 \<and>
   tails_sequences c \<le> tails_sequences (statistics_body v c) \<and>
   tails_sequences (statistics_body v c) \<le> tails_sequences c + 1 \<and>
   total_heads c \<le> total_heads (statistics_body v c) \<and>
   total_heads (statistics_body v c) \<le> total_heads c + 1 \<and>
   total_tails c \<le> total_tails (statistics_body v c) \<and>
   total_tails (statistics_body v c) \<le> total_tails c + 1 \<and>
   min 0 (current_heads_streak c) \<le> current_heads_streak (statistics_body v c) \<and>
   current_heads_streak (statistics_body v c) \<le> max 0 (current_heads_streak c) + 1 \<and>
   min 0 (current_tails_streak c) \<le> current_tails_streak (statistics_body v c) \<and>
   current_tails_streak (statistics_body v c) \<le> max 0 (current_tails_streak c) + 1"
  by (auto simp: statistics_body_def Let_def)

lemma statistics_fold_bounds:
  "heads_sequences c \<le> heads_sequences (statistics_fold c xs) \<and>
   heads_sequences (statistics_fold c xs) \<le> heads_sequences c + int (length xs) \<and>
   tails_sequences c \<le> tails_sequences (statistics_fold c xs) \<and>
   tails_sequences (statistics_fold c xs) \<le> tails_sequences c + int (length xs) \<and>
   total_heads c \<le> total_heads (statistics_fold c xs) \<and>
   total_heads (statistics_fold c xs) \<le> total_heads c + int (length xs) \<and>
   total_tails c \<le> total_tails (statistics_fold c xs) \<and>
   total_tails (statistics_fold c xs) \<le> total_tails c + int (length xs) \<and>
   min 0 (current_heads_streak c) \<le> current_heads_streak (statistics_fold c xs) \<and>
   current_heads_streak (statistics_fold c xs) \<le> max 0 (current_heads_streak c) + int (length xs) \<and>
   min 0 (current_tails_streak c) \<le> current_tails_streak (statistics_fold c xs) \<and>
   current_tails_streak (statistics_fold c xs) \<le> max 0 (current_tails_streak c) + int (length xs)"
proof (induction xs arbitrary: c)
  case Nil
  then show ?case by simp
next
  case (Cons v xs)
  from Cons.IH[of "statistics_body v c"] statistics_body_bounds[of c v]
  show ?case by (simp del: min_less_iff_conj) linarith
qed

lemma statistics_counters_in_range:
  assumes "buffer w = Some (map Some xs)" and "num_flips w = int (length xs)"
    and "statistics_loop 0 initial_counters w = Some c"
  shows "0 \<le> heads_sequences c \<and> heads_sequences c \<le> num_flips w \<and>
         0 \<le> tails_sequences c \<and> tails_sequences c \<le> num_flips w \<and>
         0 \<le> total_heads c \<and> total_heads c \<le> num_flips w \<and>
         0 \<le> total_tails c \<and> total_tails c \<le> num_flips w \<and>
         0 \<le> current_heads_streak c \<and> current_heads_streak c \<le> num_flips w \<and>
         0 \<le> current_tails_streak c \<and> current_tails_streak c \<le> num_flips w"
proof -
  have "statistics_loop (int 0) initial_counters w = Some (statistics_fold initial_counters (drop 0 xs))"
    using assms(1,2) by (rule statistics_loop_fold) simp
  with assms(3) have "c = statistics_fold initial_counters xs" by simp
  with statistics_fold_bounds[of initial_counters xs] assms(2) show ?thesis
    by (simp add: initial_counters_def)
qed

text \<open>
  C1. For a buffer of outcomes that is not empty, \<open>statistics\<close> returns, and the run count
  it writes for an outcome is the number of maximal runs of that outcome with at least 5
  elements (so a run of 12, of 10 or of 5 counts once, and a run of 4 does not count). The
  counts are those of its loop, and a step of the loop increments a run count exactly when
  the streak of the outcome it reads reaches \<open>SEQUENCE_LENGTH\<close>.
\<close>

theorem statistics_counts_maximal_runs:
  assumes "buffer w = Some (map Some xs)" and "num_flips w = int (length xs)"
    and "set xs \<subseteq> {HEADS, TAILS}"
  shows "(xs \<noteq> [] \<longrightarrow>
            statistics w =
              Done () (w\<lparr>out := out w @
                         report (int (length xs))
                           (int (length (filter (\<lambda>v. v = HEADS) xs)))
                           (int (length (filter (\<lambda>v. v \<noteq> HEADS) xs)))
                           (run_count HEADS xs) (run_count TAILS xs)\<rparr>)) \<and>
         map_option heads_sequences (statistics_loop 0 initial_counters w)
           = Some (run_count HEADS xs) \<and>
         map_option tails_sequences (statistics_loop 0 initial_counters w)
           = Some (run_count TAILS xs) \<and>
         heads_sequences (statistics_body v c) =
           heads_sequences c +
             (if v = HEADS \<and> current_heads_streak c + 1 = SEQUENCE_LENGTH then 1 else 0) \<and>
         tails_sequences (statistics_body v c) =
           tails_sequences c +
             (if v \<noteq> HEADS \<and> current_tails_streak c + 1 = SEQUENCE_LENGTH then 1 else 0)"
proof -
  have "statistics_loop (int 0) initial_counters w
        = Some (statistics_fold initial_counters (drop 0 xs))"
    using assms(1,2) by (rule statistics_loop_fold) simp
  moreover have h: "heads_sequences (statistics_fold initial_counters xs) = run_count HEADS xs"
    using heads_fold[of initial_counters xs] by (simp add: initial_counters_def)
  moreover have t: "tails_sequences (statistics_fold initial_counters xs) = run_count TAILS xs"
    using tails_fold[of initial_counters xs] assms(3) by (simp add: initial_counters_def)
  moreover have "heads_sequences (statistics_body v c) =
           heads_sequences c +
             (if v = HEADS \<and> current_heads_streak c + 1 = SEQUENCE_LENGTH then 1 else 0)"
    by (simp add: statistics_body_def Let_def)
  moreover have "tails_sequences (statistics_body v c) =
           tails_sequences c +
             (if v \<noteq> HEADS \<and> current_tails_streak c + 1 = SEQUENCE_LENGTH then 1 else 0)"
    by (simp add: statistics_body_def Let_def)
  moreover have "statistics w =
              Done () (w\<lparr>out := out w @
                         report (int (length xs))
                           (int (length (filter (\<lambda>v. v = HEADS) xs)))
                           (int (length (filter (\<lambda>v. v \<noteq> HEADS) xs)))
                           (run_count HEADS xs) (run_count TAILS xs)\<rparr>)" if "xs \<noteq> []"
    using statistics_buffer[OF assms(1,2) that] by (simp only: h t)
  ultimately show ?thesis by simp
qed

theorem statistics_counts_maximal_runs_witness:
  "statistics (holding [0, 0, 0, 0, 0, 0, 0, 0, 0, 0, 0, 0, 1]) =
     Done () ((holding [0, 0, 0, 0, 0, 0, 0, 0, 0, 0, 0, 0, 1])\<lparr>out := report 13 12 1 1 0\<rparr>) \<and>
   statistics (holding [1, 1, 1, 1, 1, 1, 1, 1, 1, 1]) =
     Done () ((holding [1, 1, 1, 1, 1, 1, 1, 1, 1, 1])\<lparr>out := report 10 0 10 0 1\<rparr>) \<and>
   statistics (holding [0, 0, 0, 0, 0]) =
     Done () ((holding [0, 0, 0, 0, 0])\<lparr>out := report 5 5 0 1 0\<rparr>) \<and>
   statistics (holding [1, 1, 1, 1]) =
     Done () ((holding [1, 1, 1, 1])\<lparr>out := report 4 0 4 0 0\<rparr>) \<and>
   statistics (holding [0, 0, 0, 0, 0, 1, 0, 0, 0, 0, 0, 0]) =
     Done () ((holding [0, 0, 0, 0, 0, 1, 0, 0, 0, 0, 0, 0])\<lparr>out := report 12 11 1 2 0\<rparr>) \<and>
   map_option heads_sequences
     (statistics_loop 0 initial_counters (holding [0, 0, 0, 0, 0, 0, 0, 0, 0, 0, 0, 0, 1]))
     = Some 1 \<and>
   map_option tails_sequences
     (statistics_loop 0 initial_counters (holding [0, 0, 0, 0, 0, 0, 0, 0, 0, 0, 0, 0, 1]))
     = Some 0 \<and>
   map_option tails_sequences
     (statistics_loop 0 initial_counters (holding [1, 1, 1, 1, 1, 1, 1, 1, 1, 1]))
     = Some 1 \<and>
   map_option heads_sequences
     (statistics_loop 0 initial_counters (holding [0, 0, 0, 0, 0])) = Some 1 \<and>
   map_option tails_sequences
     (statistics_loop 0 initial_counters (holding [1, 1, 1, 1])) = Some 0 \<and>
   map_option heads_sequences
     (statistics_loop 0 initial_counters (holding [0, 0, 0, 0, 0, 1, 0, 0, 0, 0, 0, 0]))
     = Some 2"
  using
    statistics_counts_maximal_runs
      [of "holding [0, 0, 0, 0, 0, 0, 0, 0, 0, 0, 0, 0, 1]" "[0, 0, 0, 0, 0, 0, 0, 0, 0, 0, 0, 0, 1]"]
    statistics_counts_maximal_runs
      [of "holding [1, 1, 1, 1, 1, 1, 1, 1, 1, 1]" "[1, 1, 1, 1, 1, 1, 1, 1, 1, 1]"]
    statistics_counts_maximal_runs [of "holding [0, 0, 0, 0, 0]" "[0, 0, 0, 0, 0]"]
    statistics_counts_maximal_runs [of "holding [1, 1, 1, 1]" "[1, 1, 1, 1]"]
    statistics_counts_maximal_runs
      [of "holding [0, 0, 0, 0, 0, 1, 0, 0, 0, 0, 0, 0]" "[0, 0, 0, 0, 0, 1, 0, 0, 0, 0, 0, 0]"]
  by (simp add: holding_def buffer_def block_at_def run_count_def HEADS_def TAILS_def)

text \<open>
  C2. For a buffer of \<open>n\<close> flips, \<open>total_heads + total_tails = n\<close>: every element is
  counted once, as heads when it is \<open>HEADS\<close> and as tails otherwise. When the buffer is not
  empty, \<open>statistics\<close> returns and these totals are the ones it writes, each with its share
  of \<open>n\<close>.
\<close>

theorem statistics_totals:
  assumes "buffer w = Some (map Some xs)" and "num_flips w = int (length xs)"
  shows "map_option (\<lambda>c. total_heads c + total_tails c) (statistics_loop 0 initial_counters w)
           = Some (num_flips w) \<and>
         map_option total_heads (statistics_loop 0 initial_counters w)
           = Some (int (length (filter (\<lambda>v. v = HEADS) xs))) \<and>
         map_option total_tails (statistics_loop 0 initial_counters w)
           = Some (int (length (filter (\<lambda>v. v \<noteq> HEADS) xs))) \<and>
         (xs \<noteq> [] \<longrightarrow>
            statistics w =
              Done () (w\<lparr>out := out w @
                         report (int (length xs))
                           (int (length (filter (\<lambda>v. v = HEADS) xs)))
                           (int (length (filter (\<lambda>v. v \<noteq> HEADS) xs)))
                           (heads_sequences (statistics_fold initial_counters xs))
                           (tails_sequences (statistics_fold initial_counters xs))\<rparr>))"
proof -
  have "statistics_loop (int 0) initial_counters w
        = Some (statistics_fold initial_counters (drop 0 xs))"
    using assms by (rule statistics_loop_fold) simp
  moreover have "int (length (filter (\<lambda>v. v = HEADS) xs))
                 + int (length (filter (\<lambda>v. v \<noteq> HEADS) xs)) = int (length xs)"
    using sum_length_filter_compl[of "\<lambda>v. v = HEADS" xs] by linarith
  ultimately have "map_option (\<lambda>c. total_heads c + total_tails c) (statistics_loop 0 initial_counters w)
           = Some (num_flips w) \<and>
         map_option total_heads (statistics_loop 0 initial_counters w)
           = Some (int (length (filter (\<lambda>v. v = HEADS) xs))) \<and>
         map_option total_tails (statistics_loop 0 initial_counters w)
           = Some (int (length (filter (\<lambda>v. v \<noteq> HEADS) xs)))"
    using totals_fold[of initial_counters xs] assms(2) by (simp add: initial_counters_def)
  with statistics_buffer[OF assms] show ?thesis by blast
qed

theorem statistics_totals_witness:
  "map_option (\<lambda>c. total_heads c + total_tails c)
     (statistics_loop 0 initial_counters (holding [0, 1, 1, 0, 1])) = Some 5 \<and>
   map_option total_heads (statistics_loop 0 initial_counters (holding [0, 1, 1, 0, 1])) = Some 2 \<and>
   map_option total_tails (statistics_loop 0 initial_counters (holding [0, 1, 1, 0, 1])) = Some 3 \<and>
   statistics (holding [0, 1, 1, 0, 1]) =
     Done () ((holding [0, 1, 1, 0, 1])\<lparr>out := report 5 2 3 0 0\<rparr>)"
  using statistics_totals [of "holding [0, 1, 1, 0, 1]" "[0, 1, 1, 0, 1]"]
  by (simp add: holding_def buffer_def block_at_def HEADS_def initial_counters_def
                statistics_body_def SEQUENCE_LENGTH_def)

subsection \<open>Reading a number\<close>

lemmas stored_eval = stored_def strtol_def int_of_long_def LONG_MIN_def LONG_MAX_def

lemma stored_fits: "INT_MIN \<le> n \<Longrightarrow> n \<le> INT_MAX \<Longrightarrow> stored n = n"
  by (simp add: stored_def strtol_def int_of_long_def INT_MIN_def INT_MAX_def LONG_MIN_def
                LONG_MAX_def)

lemma stored_range: "INT_MIN \<le> stored n \<and> stored n \<le> INT_MAX"
proof -
  have "0 \<le> (strtol n + 2147483648) mod 4294967296"
       "(strtol n + 2147483648) mod 4294967296 < 4294967296"
    by simp_all
  then show ?thesis by (simp add: stored_def int_of_long_def INT_MIN_def INT_MAX_def)
qed

lemma stored_flips: "MIN_FLIPS \<le> n \<Longrightarrow> n \<le> MAX_FLIPS \<Longrightarrow> stored n = n"
  by (rule stored_fits) (simp_all add: MIN_FLIPS_def MAX_FLIPS_def INT_MIN_def INT_MAX_def)

lemma stored_choice: "0 \<le> c \<Longrightarrow> c \<le> 3 \<Longrightarrow> stored c = c"
  by (rule stored_fits) (simp_all add: INT_MIN_def INT_MAX_def)

lemma scanf_d_Blank: "stdin w = Blank # ls \<Longrightarrow> scanf_d w = scanf_d (w\<lparr>stdin := ls\<rparr>)"
  by (simp add: scanf_d_def)

lemma get_valid_input_Blank:
  "stdin w = Blank # ls \<Longrightarrow> get_valid_input lo hi w = get_valid_input lo hi (w\<lparr>stdin := ls\<rparr>)"
  by (simp add: get_valid_input.simps[of lo hi w] get_valid_input.simps[of lo hi "w\<lparr>stdin := ls\<rparr>"] scanf_d_Blank)

lemma get_valid_input_reject:
  "stdin w = l # ls \<Longrightarrow> l \<noteq> Blank \<Longrightarrow> \<not> accepted lo hi l \<Longrightarrow>
   get_valid_input lo hi w = get_valid_input lo hi (w\<lparr>stdin := ls, out := out w @ [prompt lo hi]\<rparr>)"
  apply (subst get_valid_input.simps)
  apply (cases w; cases l)
    apply (auto simp: scanf_d_def accepted_def prompt_def clear_input_buffer_def printf_def)
  done

lemma get_valid_input_accept:
  "stdin w = Num t # ls \<Longrightarrow> lo \<le> stored t \<Longrightarrow> stored t \<le> hi \<Longrightarrow>
   get_valid_input lo hi w = Done (stored t) (w\<lparr>stdin := ls\<rparr>)"
  by (auto simp: get_valid_input.simps[of lo hi w] scanf_d_def clear_input_buffer_def)

lemma get_valid_input_Eof:
  "stdin w = [] \<Longrightarrow> get_valid_input lo hi w = Loops"
  by (auto simp: get_valid_input.simps[of lo hi w] scanf_d_def)

lemma get_valid_input_retry:
  "\<forall>l \<in> set ls. \<not> accepted lo hi l \<Longrightarrow> lo \<le> stored t \<Longrightarrow> stored t \<le> hi \<Longrightarrow>
   stdin w = ls @ Num t # rest \<Longrightarrow>
   get_valid_input lo hi w =
     Done (stored t) (w\<lparr>stdin := rest,
              out := out w @ replicate (length (filter (\<lambda>l. l \<noteq> Blank) ls)) (prompt lo hi)\<rparr>)"
proof (induction ls arbitrary: w)
  case Nil
  then show ?case by (simp add: get_valid_input_accept)
next
  case (Cons l ls)
  show ?case
  proof (cases "l = Blank")
    case True
    with Cons.prems have "get_valid_input lo hi w = get_valid_input lo hi (w\<lparr>stdin := ls @ Num t # rest\<rparr>)"
      by (simp add: get_valid_input_Blank)
    also have "\<dots> = Done (stored t) ((w\<lparr>stdin := ls @ Num t # rest\<rparr>)\<lparr>stdin := rest,
              out := out (w\<lparr>stdin := ls @ Num t # rest\<rparr>) @ replicate (length (filter (\<lambda>l. l \<noteq> Blank) ls)) (prompt lo hi)\<rparr>)"
      using Cons.prems by (intro Cons.IH) auto
    finally show ?thesis using True by simp
  next
    case False
    let ?w = "w\<lparr>stdin := ls @ Num t # rest, out := out w @ [prompt lo hi]\<rparr>"
    from False Cons.prems have "get_valid_input lo hi w = get_valid_input lo hi ?w"
      by (simp add: get_valid_input_reject)
    also have "\<dots> = Done (stored t) (?w\<lparr>stdin := rest,
              out := out ?w @ replicate (length (filter (\<lambda>l. l \<noteq> Blank) ls)) (prompt lo hi)\<rparr>)"
      using Cons.prems by (intro Cons.IH) auto
    finally show ?thesis using False by (simp add: replicate_app_Cons_same)
  qed
qed

lemma get_valid_input_never:
  "\<forall>l \<in> set (stdin w). \<not> accepted lo hi l \<Longrightarrow> get_valid_input lo hi w = Loops"
proof (induction "stdin w" arbitrary: w)
  case Nil
  then show ?case by (simp add: get_valid_input_Eof)
next
  case (Cons l ls)
  from Cons.hyps(2) have sw: "stdin w = l # ls" by simp
  show ?case
  proof (cases "l = Blank")
    case True
    with sw have "get_valid_input lo hi w = get_valid_input lo hi (w\<lparr>stdin := ls\<rparr>)"
      by (simp add: get_valid_input_Blank)
    also have "\<dots> = Loops" using Cons.prems sw by (intro Cons.hyps(1)) auto
    finally show ?thesis .
  next
    case False
    with sw Cons.prems have "get_valid_input lo hi w = get_valid_input lo hi (w\<lparr>stdin := ls, out := out w @ [prompt lo hi]\<rparr>)"
      by (simp add: get_valid_input_reject)
    also have "\<dots> = Loops" using Cons.prems sw by (intro Cons.hyps(1)) auto
    finally show ?thesis .
  qed
qed


lemma get_valid_input_cases:
  obtains (Never) "get_valid_input lo hi w = Loops"
  | (Valid) ls t rest where "stdin w = ls @ Num t # rest" "\<forall>l \<in> set ls. \<not> accepted lo hi l"
      "lo \<le> stored t" "stored t \<le> hi"
      "get_valid_input lo hi w =
         Done (stored t)
           (w\<lparr>stdin := rest,
              out := out w @ replicate (length (filter (\<lambda>l. l \<noteq> Blank) ls)) (prompt lo hi)\<rparr>)"
proof (cases "\<exists>l \<in> set (stdin w). accepted lo hi l")
  case False
  then have "get_valid_input lo hi w = Loops" by (intro get_valid_input_never) simp
  then show ?thesis by (rule Never)
next
  case True
  then obtain ls l rest where d: "stdin w = ls @ l # rest" "accepted lo hi l"
    "\<forall>y \<in> set ls. \<not> accepted lo hi y"
    using split_list_first_prop[of "stdin w" "accepted lo hi"] by blast
  from d(2) obtain t where v: "l = Num t" "lo \<le> stored t" "stored t \<le> hi"
    by (cases l) (auto simp: accepted_def)
  from d(1) v(1) have sw: "stdin w = ls @ Num t # rest" by simp
  show ?thesis
    using sw d(3) v(2,3) get_valid_input_retry[OF d(3) v(2,3) sw] by (rule Valid)
qed

lemma get_valid_input_Done:
  assumes "get_valid_input lo hi w = Done v w'"
  shows "lo \<le> v" and "v \<le> hi" and "length (stdin w') < length (stdin w)"
    and "\<exists>n. w' = w\<lparr>stdin := stdin w', out := out w @ replicate n (prompt lo hi)\<rparr>"
proof -
  have "lo \<le> v \<and> v \<le> hi \<and> length (stdin w') < length (stdin w) \<and>
        (\<exists>n. w' = w\<lparr>stdin := stdin w', out := out w @ replicate n (prompt lo hi)\<rparr>)"
  proof (cases lo hi w rule: get_valid_input_cases)
    case Never
    with assms show ?thesis by simp
  next
    case (Valid ls u rest)
    with assms have "stored u = v" and
      w': "w' = w\<lparr>stdin := rest, out := out w @ replicate (length (filter (\<lambda>l. l \<noteq> Blank) ls)) (prompt lo hi)\<rparr>"
      by simp_all
    from w' have "stdin w' = rest" by simp
    with Valid(1) have "length (stdin w') < length (stdin w)" by simp
    moreover from w' \<open>stdin w' = rest\<close> have "\<exists>n. w' = w\<lparr>stdin := stdin w', out := out w @ replicate n (prompt lo hi)\<rparr>"
      by auto
    ultimately show ?thesis using Valid(3,4) \<open>stored u = v\<close> by simp
  qed
  then show "lo \<le> v" and "v \<le> hi" and "length (stdin w') < length (stdin w)"
    and "\<exists>n. w' = w\<lparr>stdin := stdin w', out := out w @ replicate n (prompt lo hi)\<rparr>" by simp_all
qed

lemma get_valid_input_no_exit: "get_valid_input lo hi w \<noteq> Exits c x"
  by (cases lo hi w rule: get_valid_input_cases) simp_all

lemma get_valid_input_no_fault: "get_valid_input lo hi w \<noteq> Fault"
  by (cases lo hi w rule: get_valid_input_cases) simp_all

text \<open>
  Numbers that fit an \<^verbatim>\<open>int\<close> and lie outside \<open>MIN_FLIPS..MAX_FLIPS\<close> (0 and 100001 among
  them) are rejected: each one is answered with the prompt, and when a valid count \<open>v\<close>
  follows, it is returned in a state that differs from the initial one in the input consumed
  and the prompts written only, so \<open>flip_results\<close>, the heap and \<open>num_flips\<close> are unchanged.
  As long as nothing but such numbers is entered, the call does not return.
\<close>

lemma flip_count_rejected_within_int:
  assumes "\<forall>n \<in> set ns. INT_MIN \<le> n \<and> n \<le> INT_MAX \<and> (n < MIN_FLIPS \<or> MAX_FLIPS < n)"
  shows "(MIN_FLIPS \<le> v \<and> v \<le> MAX_FLIPS \<longrightarrow>
            get_valid_input MIN_FLIPS MAX_FLIPS (w\<lparr>stdin := map Num ns @ Num v # rest\<rparr>) =
              Done v (w\<lparr>stdin := rest,
                        out := out w @
                          replicate (length ns)
                            (Printf ''Please enter a number between %d and %d: ''
                               [I MIN_FLIPS, I MAX_FLIPS])\<rparr>)) \<and>
         get_valid_input MIN_FLIPS MAX_FLIPS (w\<lparr>stdin := map Num ns\<rparr>) = Loops"
proof -
  have rej: "\<forall>l \<in> set (map Num ns). \<not> accepted MIN_FLIPS MAX_FLIPS l"
    using assms by (auto simp: accepted_def stored_fits)
  have nb: "filter (\<lambda>l. l \<noteq> Blank) (map Num ns) = map Num ns"
    by (induction ns) auto
  have "get_valid_input MIN_FLIPS MAX_FLIPS (w\<lparr>stdin := map Num ns\<rparr>) = Loops"
    using rej by (intro get_valid_input_never) simp
  moreover have "get_valid_input MIN_FLIPS MAX_FLIPS (w\<lparr>stdin := map Num ns @ Num v # rest\<rparr>) =
              Done v (w\<lparr>stdin := rest,
                        out := out w @
                          replicate (length ns)
                            (Printf ''Please enter a number between %d and %d: ''
                               [I MIN_FLIPS, I MAX_FLIPS])\<rparr>)"
    if "MIN_FLIPS \<le> v" "v \<le> MAX_FLIPS"
    using get_valid_input_retry[OF rej, of v "w\<lparr>stdin := map Num ns @ Num v # rest\<rparr>" rest] that
    by (simp add: nb prompt_def stored_flips)
  ultimately show ?thesis by blast
qed

lemma flip_count_rejected_within_int_example:
  "get_valid_input MIN_FLIPS MAX_FLIPS ((holding [1, 0, 1])\<lparr>stdin := [Num 0, Num 100001, Num 7, Num 2]\<rparr>) =
     Done 7 ((holding [1, 0, 1])\<lparr>stdin := [Num 2],
               out := [Printf ''Please enter a number between %d and %d: '' [I 1, I 100000],
                       Printf ''Please enter a number between %d and %d: '' [I 1, I 100000]]\<rparr>) \<and>
   get_valid_input MIN_FLIPS MAX_FLIPS ((holding [1, 0, 1])\<lparr>stdin := [Num 0, Num 100001]\<rparr>) = Loops"
  using flip_count_rejected_within_int
          [where ns = "[0, 100001]" and v = 7 and w = "holding [1, 0, 1]" and rest = "[Num 2]"]
  by (simp add: MIN_FLIPS_def MAX_FLIPS_def INT_MIN_def INT_MAX_def holding_def)

subsection \<open>Generation\<close>

lemma random_flips_Suc: "random_flips rs c (Suc n) = (int (rs c) mod 2) # random_flips rs (Suc c) n"
  unfolding random_flips_def
  by (simp add: upt_rec[of 0 "Suc n"] map_Suc_upt[symmetric] del: upt_Suc)

lemma generate_flips_loop_fill:
  "flip_results w = Some p \<Longrightarrow> block_at w p = Some (map Some ys @ replicate d None) \<Longrightarrow>
   generate_flips_loop (int (length ys)) (int (length ys + d)) w =
     Some (w\<lparr>heap := (heap w)[p := Some (map Some (ys @ random_flips (rand_seq w) (rand_calls w) d))],
             rand_calls := rand_calls w + d\<rparr>)"
proof (induction d arbitrary: w ys)
  case 0
  then have "heap w ! p = Some (map Some ys)"
    by (simp add: block_at_def split: if_splits)
  then have "(heap w)[p := Some (map Some ys)] = heap w"
    using list_update_id[of "heap w" p] by simp
  then show ?case
    by (cases w) (simp add: generate_flips_loop.simps random_flips_def)
next
  case (Suc d)
  let ?v = "int (rand_seq w (rand_calls w)) mod 2"
  let ?w1 = "w\<lparr>rand_calls := Suc (rand_calls w)\<rparr>"
  let ?w2 = "?w1\<lparr>heap := (heap w)[p := Some (map Some (ys @ [?v]) @ replicate d None)]\<rparr>"
  have st: "store_flip (int (length ys)) ?v ?w1 = Some ?w2"
    using Suc.prems by (simp add: store_flip_def list_update_append block_at_def split: if_splits) 
  have "generate_flips_loop (int (length ys)) (int (length ys + Suc d)) w
        = generate_flips_loop (int (length (ys @ [?v]))) (int (length (ys @ [?v]) + d)) ?w2"
    by (subst generate_flips_loop.simps) (simp add: rand_def st add.commute)
  also have "\<dots> = Some (?w2\<lparr>heap := (heap ?w2)[p := Some (map Some ((ys @ [?v]) @ random_flips (rand_seq ?w2) (rand_calls ?w2) d))],
             rand_calls := rand_calls ?w2 + d\<rparr>)"
    using Suc.prems by (intro Suc.IH) (auto simp: block_at_def split: if_splits)
  also have "\<dots> = Some (w\<lparr>heap := (heap w)[p := Some (map Some (ys @ random_flips (rand_seq w) (rand_calls w) (Suc d)))],
             rand_calls := rand_calls w + Suc d\<rparr>)"
    by (cases w) (simp add: random_flips_Suc)
  finally show ?case .
qed

lemma length_released [simp]: "length (released w) = length (heap w)"
  by (simp add: released_def split: option.splits)

lemma generate_flips_unfold:
  assumes gvi: "get_valid_input MIN_FLIPS MAX_FLIPS (flips_prompt w) = Done n w1"
    and ok: "pointer_ok w"
  shows "generate_flips w =
     (if alloc_fails w (alloc_calls w)
      then Exits EXIT_FAILURE
             (w1\<lparr>flip_results := None, heap := released w, alloc_calls := Suc (alloc_calls w),
                 out := out w1 @ [Eprintf ''Memory allocation error!\<newline>'' []]\<rparr>)
      else Done n
             (w1\<lparr>flip_results := Some (length (heap w)),
                 heap := released w @ [Some (map Some (random_flips (rand_seq w) (rand_calls w) (nat n)))],
                 alloc_calls := Suc (alloc_calls w),
                 rand_calls := rand_calls w + nat n\<rparr>))"
proof -
  from get_valid_input_Done[OF gvi] obtain k where
    n: "MIN_FLIPS \<le> n" "n \<le> MAX_FLIPS" and
    w1: "w1 = (flips_prompt w)\<lparr>stdin := stdin w1,
               out := out (flips_prompt w) @ replicate k (prompt MIN_FLIPS MAX_FLIPS)\<rparr>"
    by blast
  have same: "flip_results w1 = flip_results w" "heap w1 = heap w" "alloc_fails w1 = alloc_fails w"
    "alloc_calls w1 = alloc_calls w" "rand_seq w1 = rand_seq w" "rand_calls w1 = rand_calls w"
    by (subst w1, simp add: flips_prompt_def printf_def)+
  define w2 where "w2 = w1\<lparr>flip_results := None, heap := released w\<rparr>"
  have rel: "(case flip_results w1 of None \<Rightarrow> Some w1
              | Some p \<Rightarrow> map_option (\<lambda>w'. w'\<lparr>flip_results := None\<rparr>) (free p w1)) = Some w2"
  proof (cases "flip_results w")
    case None
    then show ?thesis
      using same by (cases w1) (simp add: w2_def released_def)
  next
    case (Some p)
    with ok obtain blk where "block_at w p = Some blk" by (auto simp: pointer_ok_def)
    then have "block_at w1 p = Some blk" using same by (simp add: block_at_def split: if_splits)
    then show ?thesis using Some same
      by (cases w1) (simp add: w2_def released_def free_def)
  qed
  have g: "generate_flips w =
        (case malloc (nat n) w2 of
                 (p, w3) \<Rightarrow>
                   (let w4 = w3\<lparr>flip_results := p\<rparr>
                    in if flip_results w4 = None
                       then Exits EXIT_FAILURE (eprintf ''Memory allocation error!\<newline>'' [] w4)
                       else (case generate_flips_loop 0 n w4 of
                               None \<Rightarrow> Fault
                             | Some w5 \<Rightarrow> Done n w5)))"
    using gvi rel by (simp add: generate_flips_def and_then_def flips_prompt_def)
  have w2f: "alloc_fails w2 = alloc_fails w" "alloc_calls w2 = alloc_calls w" "heap w2 = released w"
    "rand_seq w2 = rand_seq w" "rand_calls w2 = rand_calls w"
    using same by (simp_all add: w2_def)
  show ?thesis
  proof (cases "alloc_fails w (alloc_calls w)")
    case True
    then show ?thesis unfolding g using w2f
      by (cases w1) (simp add: malloc_def eprintf_def w2_def)
  next
    case False
    define w4 where "w4 = w2\<lparr>heap := released w @ [Some (replicate (nat n) None)],
                             alloc_calls := Suc (alloc_calls w),
                             flip_results := Some (length (heap w))\<rparr>"
    have m: "malloc (nat n) w2 = (Some (length (heap w)),
               w2\<lparr>heap := released w @ [Some (replicate (nat n) None)],
                  alloc_calls := Suc (alloc_calls w)\<rparr>)"
      using False w2f by (simp add: malloc_def)
    have fr: "flip_results w4 = Some (length (heap w))" by (simp add: w4_def)
    have bl: "block_at w4 (length (heap w)) = Some (map Some [] @ replicate (nat n) None)"
      by (simp add: w4_def block_at_def nth_append)
    have "int (length ([]::int list)) = 0" "int (length ([]::int list) + nat n) = n"
      using n by (simp_all add: MIN_FLIPS_def)
    with generate_flips_loop_fill[OF fr bl]
    have lp: "generate_flips_loop 0 n w4 =
        Some (w4\<lparr>heap := (heap w4)[length (heap w) := Some (map Some (random_flips (rand_seq w4) (rand_calls w4) (nat n)))],
                 rand_calls := rand_calls w4 + nat n\<rparr>)"
      by simp
    have hp: "(heap w4)[length (heap w) := Some (map Some (random_flips (rand_seq w4) (rand_calls w) (nat n)))]
        = released w @ [Some (map Some (random_flips (rand_seq w) (rand_calls w) (nat n)))]"
      using w2f by (simp add: w4_def list_update_append)
    have rc: "rand_calls w4 = rand_calls w" using w2f by (simp add: w4_def)
    have "generate_flips w = Done n (w4\<lparr>heap := released w @ [Some (map Some (random_flips (rand_seq w) (rand_calls w) (nat n)))],
                 rand_calls := rand_calls w + nat n\<rparr>)"
      unfolding g m using lp[unfolded rc, unfolded hp] by (simp add: w4_def[symmetric] Let_def fr)
    also have "\<dots> = Done n (w1\<lparr>flip_results := Some (length (heap w)),
                 heap := released w @ [Some (map Some (random_flips (rand_seq w) (rand_calls w) (nat n)))],
                 alloc_calls := Suc (alloc_calls w),
                 rand_calls := rand_calls w + nat n\<rparr>)"
      by (cases w1) (simp add: w4_def w2_def)
    finally show ?thesis using False by simp
  qed
qed

lemma random_flips_outcomes:
  "length (random_flips rs c n) = n" "set (random_flips rs c n) \<subseteq> {HEADS, TAILS}"
  "j < n \<Longrightarrow> random_flips rs c n ! j = int (rs (c + j)) mod 2"
  by (auto simp: random_flips_def HEADS_def TAILS_def)

lemma generate_flips_input:
  assumes "\<forall>l \<in> set ls. \<not> accepted MIN_FLIPS MAX_FLIPS l"
    and "MIN_FLIPS \<le> stored t" and "stored t \<le> MAX_FLIPS" and "stdin w = ls @ Num t # rest"
  shows "get_valid_input MIN_FLIPS MAX_FLIPS (flips_prompt w) =
           Done (stored t)
             (w\<lparr>stdin := rest,
                out := out w @
                  [Printf ''How many coin flips would you like to generate?\<newline>'' [],
                   Printf ''(Range: %d - %d): '' [I MIN_FLIPS, I MAX_FLIPS]] @
                  replicate (length (filter (\<lambda>l. l \<noteq> Blank) ls)) (prompt MIN_FLIPS MAX_FLIPS)\<rparr>)"
proof -
  have "stdin (flips_prompt w) = ls @ Num t # rest"
    using assms(4) by (simp add: flips_prompt_def printf_def)
  from get_valid_input_retry[OF assms(1-3) this] show ?thesis
    by (cases w) (simp add: flips_prompt_def printf_def)
qed

lemma pointer_ok_printf [simp]: "pointer_ok (printf f a w) = pointer_ok w"
  by (simp add: pointer_ok_def printf_def block_at_def split: option.splits)

lemma released_printf [simp]: "released (printf f a w) = released w"
  by (simp add: released_def printf_def split: option.splits)

lemma released_out [simp]: "released (w\<lparr>out := x\<rparr>) = released w"
  by (simp add: released_def split: option.splits)

lemma block_at_updates [simp]:
  "block_at (w\<lparr>num_flips := n\<rparr>) p = block_at w p"
  "block_at (w\<lparr>stdin := s\<rparr>) p = block_at w p"
  "block_at (w\<lparr>out := ev\<rparr>) p = block_at w p"
  by (simp_all add: block_at_def)

lemma buffer_updates [simp]:
  "buffer (w\<lparr>num_flips := n\<rparr>) = buffer w"
  "buffer (w\<lparr>stdin := s\<rparr>) = buffer w"
  "buffer (w\<lparr>out := ev\<rparr>) = buffer w"
  by (simp_all add: buffer_def split: option.splits)

lemma released_at: "flip_results v = Some p \<Longrightarrow> released v = (heap v)[p := None]"
  by (simp add: released_def)

lemma generate_flips_stored:
  assumes "\<forall>l \<in> set ls. \<not> accepted MIN_FLIPS MAX_FLIPS l"
    and "MIN_FLIPS \<le> stored t" and "stored t \<le> MAX_FLIPS" and "stdin w = ls @ Num t # rest"
    and "pointer_ok w"
  shows "generate_flips w =
     (if alloc_fails w (alloc_calls w)
      then Exits EXIT_FAILURE
             (w\<lparr>flip_results := None, heap := released w, alloc_calls := Suc (alloc_calls w),
                stdin := rest,
                out := gen_out w ls @ [Eprintf ''Memory allocation error!\<newline>'' []]\<rparr>)
      else Done (stored t)
             (w\<lparr>flip_results := Some (length (heap w)),
                heap := released w @
                  [Some (map Some (random_flips (rand_seq w) (rand_calls w) (nat (stored t))))],
                alloc_calls := Suc (alloc_calls w),
                rand_calls := rand_calls w + nat (stored t),
                stdin := rest, out := gen_out w ls\<rparr>))"
  unfolding generate_flips_unfold[OF generate_flips_input[OF assms(1-4)] assms(5)]
  by (cases w) (simp add: gen_out_def)

lemma generate_flips_explicit:
  assumes "\<forall>l \<in> set ls. \<not> accepted MIN_FLIPS MAX_FLIPS l"
    and "MIN_FLIPS \<le> n" and "n \<le> MAX_FLIPS" and "stdin w = ls @ Num n # rest"
    and "pointer_ok w"
  shows "generate_flips w =
     (if alloc_fails w (alloc_calls w)
      then Exits EXIT_FAILURE
             (w\<lparr>flip_results := None, heap := released w, alloc_calls := Suc (alloc_calls w),
                stdin := rest,
                out := gen_out w ls @ [Eprintf ''Memory allocation error!\<newline>'' []]\<rparr>)
      else Done n
             (w\<lparr>flip_results := Some (length (heap w)),
                heap := released w @ [Some (map Some (random_flips (rand_seq w) (rand_calls w) (nat n)))],
                alloc_calls := Suc (alloc_calls w),
                rand_calls := rand_calls w + nat n,
                stdin := rest, out := gen_out w ls\<rparr>))"
  using generate_flips_stored[OF assms(1) _ _ assms(4,5)] assms(2,3)
  by (simp add: stored_flips)

lemma block_at_heap: "heap w' = heap w \<Longrightarrow> block_at w' p = block_at w p"
  by (simp add: block_at_def)

lemma generate_flips_dangling:
  assumes "\<not> pointer_ok w"
  shows "generate_flips w = Loops \<or> generate_flips w = Fault"
proof -
  from assms obtain p where p: "flip_results w = Some p" "block_at w p = None"
    by (auto simp: pointer_ok_def split: option.splits)
  show ?thesis
  proof (cases MIN_FLIPS MAX_FLIPS "flips_prompt w" rule: get_valid_input_cases)
    case Never
    then show ?thesis by (simp add: generate_flips_def and_then_def flips_prompt_def)
  next
    case (Valid ls v rest)
    let ?w1 = "(flips_prompt w)\<lparr>stdin := rest, out := out (flips_prompt w) @ replicate (length (filter (\<lambda>l. l \<noteq> Blank) ls)) (prompt MIN_FLIPS MAX_FLIPS)\<rparr>"
    have "heap ?w1 = heap w" by (simp add: flips_prompt_def printf_def)
    from block_at_heap[OF this, of p] have "block_at ?w1 p = None" using p(2) by simp
    moreover have "flip_results ?w1 = Some p"
      using p by (simp add: flips_prompt_def printf_def)
    ultimately have "flip_results ?w1 = Some p" "block_at ?w1 p = None" by simp_all
    then have "generate_flips w = Fault"
      using Valid(5) by (simp add: generate_flips_def and_then_def flips_prompt_def free_def)
    then show ?thesis by simp
  qed
qed

lemma generate_flips_needs_pointer:
  assumes "generate_flips w = Done n w'"
  shows "pointer_ok w"
  using assms generate_flips_dangling[of w] by auto

lemma generate_flips_Done:
  assumes "generate_flips w = Done n w'"
  obtains ls t rest where "\<forall>l \<in> set ls. \<not> accepted MIN_FLIPS MAX_FLIPS l"
    "MIN_FLIPS \<le> n" "n \<le> MAX_FLIPS" "stdin w = ls @ Num t # rest" "stored t = n"
    "pointer_ok w" "\<not> alloc_fails w (alloc_calls w)"
    "w' = w\<lparr>flip_results := Some (length (heap w)),
                heap := released w @ [Some (map Some (random_flips (rand_seq w) (rand_calls w) (nat n)))],
                alloc_calls := Suc (alloc_calls w),
                rand_calls := rand_calls w + nat n,
                stdin := rest, out := gen_out w ls\<rparr>"
proof -
  have ok: "pointer_ok w" using assms by (rule generate_flips_needs_pointer)
  show ?thesis
  proof (cases MIN_FLIPS MAX_FLIPS "flips_prompt w" rule: get_valid_input_cases)
    case Never
    with assms show ?thesis by (simp add: generate_flips_def and_then_def flips_prompt_def)
  next
    case (Valid ls t rest)
    have sw: "stdin w = ls @ Num t # rest"
      using Valid(1) by (simp add: flips_prompt_def printf_def)
    note ex = generate_flips_stored[OF Valid(2,3,4) sw ok]
    from ex assms have na: "\<not> alloc_fails w (alloc_calls w)" by (auto split: if_splits)
    with ex assms have "stored t = n" and
      "w' = w\<lparr>flip_results := Some (length (heap w)),
                heap := released w @
                  [Some (map Some (random_flips (rand_seq w) (rand_calls w) (nat (stored t))))],
                alloc_calls := Suc (alloc_calls w),
                rand_calls := rand_calls w + nat (stored t),
                stdin := rest, out := gen_out w ls\<rparr>" by simp_all
    with Valid(2,3,4) sw ok na show ?thesis by (intro that[of ls t rest]) simp_all
  qed
qed

text \<open>
  C3. When the count entered is in \<open>MIN_FLIPS..MAX_FLIPS\<close> and the allocation succeeds,
  \<open>generate_flips\<close> returns the count, and \<open>flip_results\<close> points to a block of exactly
  that many cells, all initialised, each \<open>HEADS\<close> or \<open>TAILS\<close>: cell \<open>j\<close> holds the result of
  call number \<open>rand_calls w + j\<close> of \<^verbatim>\<open>rand\<close>, modulo 2, one call for each cell.
\<close>

theorem generate_flips_fills_buffer:
  assumes "\<forall>l \<in> set ls. \<not> accepted MIN_FLIPS MAX_FLIPS l"
    and "MIN_FLIPS \<le> count" and "count \<le> MAX_FLIPS" and "stdin w = ls @ Num count # rest"
    and "pointer_ok w" and "\<not> alloc_fails w (alloc_calls w)"
  shows "\<exists>w'. generate_flips w = Done count w' \<and>
           buffer w' = Some (map Some (random_flips (rand_seq w) (rand_calls w) (nat count))) \<and>
           int (length (random_flips (rand_seq w) (rand_calls w) (nat count))) = count \<and>
           set (random_flips (rand_seq w) (rand_calls w) (nat count)) \<subseteq> {HEADS, TAILS} \<and>
           rand_calls w' = rand_calls w + nat count"
proof -
  from assms(2) have "0 \<le> count" by (simp add: MIN_FLIPS_def)
  then show ?thesis
    using generate_flips_explicit[OF assms(1-5)] assms(6)
    by (simp add: buffer_def block_at_def nth_append random_flips_outcomes)
qed

theorem generate_flips_fills_buffer_witness:
  "\<exists>w'. generate_flips (at_start [Num 0, Bad, Num 3] (\<lambda>k. k) (\<lambda>k. False)) = Done 3 w' \<and>
        buffer w' = Some [Some 0, Some 1, Some 0] \<and> rand_calls w' = 3"
  using generate_flips_fills_buffer
          [of "[Num 0, Bad]" 3 "at_start [Num 0, Bad, Num 3] (\<lambda>k. k) (\<lambda>k. False)" "[]"]
  by (simp add: at_start_def accepted_def stored_eval MIN_FLIPS_def MAX_FLIPS_def pointer_ok_def
                random_flips_def HEADS_def TAILS_def upt_rec)

text \<open>
  C7. When the allocation fails, \<open>generate_flips\<close> writes the message to the error stream
  and ends the process with the status \<open>EXIT_FAILURE\<close>, which is not 0. Nothing is written
  or done after the message, also seen from the menu. At that moment \<open>flip_results\<close> is
  \<^verbatim>\<open>NULL\<close>, the previous block is freed and no new block exists (\<open>num_flips\<close> still
  holds the length of the freed buffer; nothing reads it any more).
\<close>

theorem allocation_failure_is_fatal:
  assumes "\<forall>l \<in> set ls. \<not> accepted MIN_FLIPS MAX_FLIPS l"
    and "MIN_FLIPS \<le> count" and "count \<le> MAX_FLIPS" and "stdin w = ls @ Num count # rest"
    and "pointer_ok w" and "alloc_fails w (alloc_calls w)"
  shows "generate_flips w =
           Exits EXIT_FAILURE
             (w\<lparr>flip_results := None, heap := released w, alloc_calls := Suc (alloc_calls w),
                stdin := rest,
                out := gen_out w ls @ [Eprintf ''Memory allocation error!\<newline>'' []]\<rparr>) \<and>
         menu_dispatch 1 w =
           Exits EXIT_FAILURE
             (w\<lparr>flip_results := None, heap := released w, alloc_calls := Suc (alloc_calls w),
                stdin := rest,
                out := gen_out (printf ''\<newline>'' [] w) ls @
                         [Eprintf ''Memory allocation error!\<newline>'' []]\<rparr>) \<and>
         EXIT_FAILURE \<noteq> 0"
proof -
  let ?w = "printf ''\<newline>'' [] w"
  have "stdin ?w = ls @ Num count # rest" "alloc_fails ?w (alloc_calls ?w)"
    using assms(4,6) by (simp_all add: printf_def)
  moreover have "pointer_ok ?w" using assms(5) by simp
  ultimately have "generate_flips ?w = Exits EXIT_FAILURE
             (?w\<lparr>flip_results := None, heap := released ?w, alloc_calls := Suc (alloc_calls ?w),
                stdin := rest,
                out := gen_out ?w ls @ [Eprintf ''Memory allocation error!\<newline>'' []]\<rparr>)"
    using generate_flips_explicit[OF assms(1-3), of ?w rest] by simp
  then have "menu_dispatch 1 w = Exits EXIT_FAILURE
             (?w\<lparr>flip_results := None, heap := released ?w, alloc_calls := Suc (alloc_calls ?w),
                stdin := rest,
                out := gen_out ?w ls @ [Eprintf ''Memory allocation error!\<newline>'' []]\<rparr>)"
    by (simp add: menu_dispatch_def and_then_def)
  also have "?w\<lparr>flip_results := None, heap := released ?w, alloc_calls := Suc (alloc_calls ?w),
                stdin := rest,
                out := gen_out ?w ls @ [Eprintf ''Memory allocation error!\<newline>'' []]\<rparr>
        = w\<lparr>flip_results := None, heap := released w, alloc_calls := Suc (alloc_calls w),
                stdin := rest,
                out := gen_out ?w ls @ [Eprintf ''Memory allocation error!\<newline>'' []]\<rparr>"
    by (simp add: printf_def)
  finally show ?thesis
    using generate_flips_explicit[OF assms(1-5)] assms(6) by (simp add: EXIT_FAILURE_def)
qed

theorem allocation_failure_is_fatal_witness:
  "\<exists>w'. generate_flips ((holding [1, 0, 1])\<lparr>stdin := [Num 2], alloc_fails := \<lambda>k. True\<rparr>)
           = Exits 1 w' \<and>
        flip_results w' = None \<and> heap w' = [None] \<and> num_flips w' = 3 \<and> stdin w' = [] \<and>
        rand_calls w' = 3 \<and>
        out w' = [Printf ''How many coin flips would you like to generate?\<newline>'' [],
                  Printf ''(Range: %d - %d): '' [I 1, I 100000],
                  Eprintf ''Memory allocation error!\<newline>'' []]"
  using allocation_failure_is_fatal
          [where ls = "[]" and count = 2 and rest = "[]"
             and w = "(holding [1, 0, 1])\<lparr>stdin := [Num 2], alloc_fails := \<lambda>k. True\<rparr>"]
  by (simp add: holding_def MIN_FLIPS_def MAX_FLIPS_def pointer_ok_def block_at_def released_def
                gen_out_def EXIT_FAILURE_def)

text \<open>
  C5. Two generations in a row, as the menu runs them: the block of the first one is freed
  by the second, \<open>flip_results\<close> points to a new block, which holds the results of the
  calls of \<^verbatim>\<open>rand\<close> made by the second generation only, and the statistics pass over it
  is the pass over these results. Whatever the first block held (\<open>ys\<close>), the second
  generation ends in the same state.
\<close>

theorem generation_replaces_buffer:
  assumes "generate_flips w = Done n w1"
    and "generate_flips (w1\<lparr>num_flips := n\<rparr>) = Done m w2"
  shows "flip_results w1 = Some (length (heap w)) \<and>
         block_at w2 (length (heap w)) = None \<and>
         flip_results w2 = Some (Suc (length (heap w))) \<and>
         buffer w2 = Some (map Some (random_flips (rand_seq w) (rand_calls w + nat n) (nat m))) \<and>
         statistics_loop 0 initial_counters (w2\<lparr>num_flips := m\<rparr>) =
           Some (statistics_fold initial_counters
                   (random_flips (rand_seq w) (rand_calls w + nat n) (nat m))) \<and>
         generate_flips (w1\<lparr>num_flips := n, heap := (heap w1)[length (heap w) := Some ys]\<rparr>)
           = Done m w2"
proof -
  from assms(1) obtain ls t rest where
    w1: "w1 = w\<lparr>flip_results := Some (length (heap w)),
                heap := released w @ [Some (map Some (random_flips (rand_seq w) (rand_calls w) (nat n)))],
                alloc_calls := Suc (alloc_calls w),
                rand_calls := rand_calls w + nat n,
                stdin := rest, out := gen_out w ls\<rparr>"
    by (rule generate_flips_Done)
  let ?v = "w1\<lparr>num_flips := n\<rparr>"
  let ?u = "w1\<lparr>num_flips := n, heap := (heap w1)[length (heap w) := Some ys]\<rparr>"
  have f1: "flip_results w1 = Some (length (heap w))" by (simp add: w1)
  have h1: "heap w1 = released w @ [Some (map Some (random_flips (rand_seq w) (rand_calls w) (nat n)))]"
    by (simp add: w1)
  have relv: "released ?v = released w @ [None]"
    using released_at[of ?v "length (heap w)"] by (simp add: f1 h1 list_update_append)
  have relu: "released ?u = released w @ [None]"
    using released_at[of ?u "length (heap w)"] by (simp add: f1 h1 list_update_append)
  from assms(2) obtain ls2 t2 rest2 where
    g2: "\<forall>l \<in> set ls2. \<not> accepted MIN_FLIPS MAX_FLIPS l" "MIN_FLIPS \<le> m" "m \<le> MAX_FLIPS"
        "stdin ?v = ls2 @ Num t2 # rest2" "\<not> alloc_fails ?v (alloc_calls ?v)"
        "stored t2 = m" and
    w2: "w2 = ?v\<lparr>flip_results := Some (length (heap ?v)),
                heap := released ?v @ [Some (map Some (random_flips (rand_seq ?v) (rand_calls ?v) (nat m)))],
                alloc_calls := Suc (alloc_calls ?v),
                rand_calls := rand_calls ?v + nat m,
                stdin := rest2, out := gen_out ?v ls2\<rparr>"
    by (rule generate_flips_Done)
  have rs: "rand_seq w1 = rand_seq w" "rand_calls w1 = rand_calls w + nat n"
           "length (heap w1) = Suc (length (heap w))"
    by (simp add: w1, simp add: w1, simp add: h1)
  have f2: "flip_results w2 = Some (Suc (length (heap w)))"
    by (subst w2) (simp add: rs)
  have h2: "heap w2 = released w @ [None, Some (map Some (random_flips (rand_seq w) (rand_calls w + nat n) (nat m)))]"
    by (subst w2) (simp add: relv rs)
  have b2: "buffer w2 = Some (map Some (random_flips (rand_seq w) (rand_calls w + nat n) (nat m)))"
    by (simp add: buffer_def block_at_def f2 h2 nth_append)
  have old: "block_at w2 (length (heap w)) = None"
    by (simp add: block_at_def h2 nth_append)
  have "0 \<le> m" using g2(2) by (simp add: MIN_FLIPS_def)
  then have st: "statistics_loop (int 0) initial_counters (w2\<lparr>num_flips := m\<rparr>) =
           Some (statistics_fold initial_counters
                   (drop 0 (random_flips (rand_seq w) (rand_calls w + nat n) (nat m))))"
    using b2 by (intro statistics_loop_fold) (simp_all add: random_flips_def)
  have oku: "pointer_ok ?u"
    by (simp add: pointer_ok_def block_at_def f1 h1)
  have "stdin ?u = ls2 @ Num t2 # rest2" "\<not> alloc_fails ?u (alloc_calls ?u)"
    "MIN_FLIPS \<le> stored t2" "stored t2 \<le> MAX_FLIPS"
    using g2(2-6) by simp_all
  with generate_flips_stored[OF g2(1) _ _ _ oku, of t2 rest2] g2(6)
  have "generate_flips ?u = Done m
             (?u\<lparr>flip_results := Some (length (heap ?u)),
                heap := released ?u @ [Some (map Some (random_flips (rand_seq ?u) (rand_calls ?u) (nat m)))],
                alloc_calls := Suc (alloc_calls ?u),
                rand_calls := rand_calls ?u + nat m,
                stdin := rest2, out := gen_out ?u ls2\<rparr>)"
    by simp
  also have "?u\<lparr>flip_results := Some (length (heap ?u)),
                heap := released ?u @ [Some (map Some (random_flips (rand_seq ?u) (rand_calls ?u) (nat m)))],
                alloc_calls := Suc (alloc_calls ?u),
                rand_calls := rand_calls ?u + nat m,
                stdin := rest2, out := gen_out ?u ls2\<rparr> = w2"
    unfolding relu by (subst w2, unfold relv) (simp add: gen_out_def)
  finally show ?thesis using f1 old f2 b2 st by simp
qed

theorem generation_replaces_buffer_witness:
  "\<exists>w1 w2. generate_flips (at_start [Num 2, Num 2] (\<lambda>k. k div 2) (\<lambda>k. False)) = Done 2 w1 \<and>
           generate_flips (w1\<lparr>num_flips := 2\<rparr>) = Done 2 w2 \<and>
           buffer w1 = Some [Some 0, Some 0] \<and> flip_results w1 = Some 0 \<and>
           buffer w2 = Some [Some 1, Some 1] \<and> flip_results w2 = Some 1 \<and>
           block_at w2 0 = None \<and>
           map_option total_heads (statistics_loop 0 initial_counters (w2\<lparr>num_flips := 2\<rparr>))
             = Some 0 \<and>
           generate_flips (w1\<lparr>num_flips := 2, heap := (heap w1)[0 := Some [Some 0, Some 1]]\<rparr>)
             = Done 2 w2"
proof -
  let ?w = "at_start [Num 2, Num 2] (\<lambda>k. k div 2) (\<lambda>k. False)"
  let ?w1 = "?w\<lparr>flip_results := Some 0, heap := [Some [Some 0, Some 0]], alloc_calls := 1,
                 rand_calls := 2, stdin := [Num 2], out := gen_out ?w []\<rparr>"
  have g1: "generate_flips ?w = Done 2 ?w1"
    using generate_flips_explicit[where ls = "[]" and n = 2 and w = ?w and rest = "[Num 2]"]
    by (simp add: at_start_def MIN_FLIPS_def MAX_FLIPS_def pointer_ok_def released_def
                  random_flips_def upt_rec)
  let ?v = "?w1\<lparr>num_flips := 2\<rparr>"
  let ?w2 = "?v\<lparr>flip_results := Some 1, heap := [None, Some [Some 1, Some 1]], alloc_calls := 2,
                 rand_calls := 4, stdin := [], out := gen_out ?v []\<rparr>"
  have g2: "generate_flips ?v = Done 2 ?w2"
    using generate_flips_explicit[where ls = "[]" and n = 2 and w = ?v and rest = "[]"]
    by (simp add: at_start_def MIN_FLIPS_def MAX_FLIPS_def pointer_ok_def released_def
                  block_at_def random_flips_def upt_rec)
  from generation_replaces_buffer[OF g1 g2, of "[Some 0, Some 1]"]
  have "buffer ?w2 = Some [Some 1, Some 1] \<and> block_at ?w2 0 = None \<and>
        map_option total_heads (statistics_loop 0 initial_counters (?w2\<lparr>num_flips := 2\<rparr>))
             = Some 0 \<and>
        generate_flips (?w1\<lparr>num_flips := 2, heap := (heap ?w1)[0 := Some [Some 0, Some 1]]\<rparr>)
             = Done 2 ?w2"
    by (simp add: at_start_def random_flips_def upt_rec initial_counters_def statistics_body_def
                  HEADS_def SEQUENCE_LENGTH_def)
  moreover have "buffer ?w1 = Some [Some 0, Some 0]" "flip_results ?w1 = Some 0"
    "flip_results ?w2 = Some 1"
    by (simp_all add: buffer_def block_at_def)
  ultimately show ?thesis using g1 g2 by blast
qed

text \<open>
  C6. A count outside \<open>MIN_FLIPS..MAX_FLIPS\<close> is not always rejected. \<open>get_valid_input\<close>
  tests the \<^verbatim>\<open>int\<close> that \<^verbatim>\<open>scanf\<close> has stored, not the number typed: 4294967297 is
  stored as 1, so \<open>get_valid_input\<close> returns 1 without a prompt, and \<open>generate_flips\<close>
  frees the buffer of three flips, puts one new flip in its place and returns 1.
\<close>

theorem flip_count_overflow_accepted:
  "get_valid_input MIN_FLIPS MAX_FLIPS ((holding [1, 0, 1])\<lparr>stdin := [Num 4294967297]\<rparr>) =
     Done 1 (holding [1, 0, 1]) \<and>
   generate_flips ((holding [1, 0, 1])\<lparr>stdin := [Num 4294967297]\<rparr>) =
     Done 1 ((holding [1, 0, 1])
               \<lparr>flip_results := Some 1, heap := [None, Some [Some 0]], alloc_calls := 2,
                  rand_calls := 4,
                  out := [Printf ''How many coin flips would you like to generate?\<newline>'' [],
                          Printf ''(Range: %d - %d): '' [I 1, I 100000]]\<rparr>)"
proof
  show "get_valid_input MIN_FLIPS MAX_FLIPS ((holding [1, 0, 1])\<lparr>stdin := [Num 4294967297]\<rparr>) =
     Done 1 (holding [1, 0, 1])"
    using get_valid_input_retry
            [where ls = "[]" and t = 4294967297 and rest = "[]" and lo = MIN_FLIPS
               and hi = MAX_FLIPS and w = "(holding [1, 0, 1])\<lparr>stdin := [Num 4294967297]\<rparr>"]
    by (simp add: holding_def stored_eval MIN_FLIPS_def MAX_FLIPS_def)
  show "generate_flips ((holding [1, 0, 1])\<lparr>stdin := [Num 4294967297]\<rparr>) =
     Done 1 ((holding [1, 0, 1])
               \<lparr>flip_results := Some 1, heap := [None, Some [Some 0]], alloc_calls := 2,
                  rand_calls := 4,
                  out := [Printf ''How many coin flips would you like to generate?\<newline>'' [],
                          Printf ''(Range: %d - %d): '' [I 1, I 100000]]\<rparr>)"
    using generate_flips_stored
            [where ls = "[]" and t = 4294967297 and rest = "[]"
               and w = "(holding [1, 0, 1])\<lparr>stdin := [Num 4294967297]\<rparr>"]
    by (simp add: holding_def stored_eval MIN_FLIPS_def MAX_FLIPS_def pointer_ok_def block_at_def
                  released_def random_flips_def upt_rec gen_out_def)
qed

subsection \<open>Display and report\<close>

lemma clear_input_buffer_drop: "clear_input_buffer w = w\<lparr>stdin := drop 1 (stdin w)\<rparr>"
  by (cases "stdin w") (simp_all add: clear_input_buffer_def)

lemma table_events_step:
  "k < length xs \<Longrightarrow> table_events xs k = row_events (int (length xs)) k (xs ! k) @ table_events xs (Suc k)"
  by (simp add: table_events_def upt_conv_Cons)

lemma pauses_step:
  "k < n \<Longrightarrow> pauses n k = (if pause_after (int n) k then 1 else 0) + pauses n (Suc k)"
  by (simp add: pauses_def upt_conv_Cons)

lemma display_flips_loop_rows:
  "buffer w = Some (map Some xs) \<Longrightarrow> num_flips w = int (length xs) \<Longrightarrow> k \<le> length xs \<Longrightarrow>
   display_flips_loop (int k) w =
     Some (w\<lparr>stdin := drop (pauses (length xs) k) (stdin w),
             out := out w @ table_events xs k\<rparr>)"
proof (induction "length xs - k" arbitrary: k w)
  case 0
  then show ?case
    by (simp add: display_flips_loop.simps table_events_def pauses_def)
next
  case (Suc d)
  then have k: "k < length xs" by simp
  let ?row = "Printf ''%6d  |   %d   | %s\<newline>'' [I (int k + 1), I (xs ! k), S (flip_to_string (xs ! k))]"
  let ?w1 = "(if pause_after (int (length xs)) k then pause else id) (printf ''%6d  |   %d   | %s\<newline>'' [I (int k + 1), I (xs ! k), S (flip_to_string (xs ! k))] w)"
  have w1: "?w1 = w\<lparr>stdin := drop (if pause_after (int (length xs)) k then 1 else 0) (stdin w),
                     out := out w @ row_events (int (length xs)) k (xs ! k)\<rparr>"
    by (simp add: pause_def printf_def clear_input_buffer_drop row_events_def)
  have "display_flips_loop (int k) w = display_flips_loop (int (Suc k)) ?w1"
    using k Suc.prems
    by (subst display_flips_loop.simps) (simp add: load_flip_buffer pause_after_def add.commute)
  also have "\<dots> = Some (?w1\<lparr>stdin := drop (pauses (length xs) (Suc k)) (stdin ?w1),
             out := out ?w1 @ table_events xs (Suc k)\<rparr>)"
  proof (rule Suc.hyps(1))
    show "d = length xs - Suc k" using Suc.hyps(2) by simp
    show "buffer ?w1 = Some (map Some xs)" using Suc.prems(1) by (simp add: w1)
    show "num_flips ?w1 = int (length xs)" using Suc.prems(2) by (simp add: w1)
    show "Suc k \<le> length xs" using k by simp
  qed
  also have "\<dots> = Some (w\<lparr>stdin := drop (pauses (length xs) k) (stdin w),
             out := out w @ table_events xs k\<rparr>)"
    unfolding w1 using k by (simp add: table_events_step pauses_step add.commute)
  finally show ?case .
qed

lemma display_flips_table:
  assumes "buffer w = Some (map Some xs)" and "num_flips w = int (length xs)" and "xs \<noteq> []"
  shows "display_flips w =
           Done () (w\<lparr>stdin := drop (pauses (length xs) 0) (stdin w),
                      out := out w @ table_events xs 0 @
                        [Printf ''========================\<newline>'' [],
                         Printf ''Total flips displayed: %d\<newline>'' [I (int (length xs))]]\<rparr>)"
proof -
  have "display_flips_loop (int 0) w =
     Some (w\<lparr>stdin := drop (pauses (length xs) 0) (stdin w),
             out := out w @ table_events xs 0\<rparr>)"
    using assms(1,2) by (rule display_flips_loop_rows) simp
  then show ?thesis using assms(2,3)
    by (simp add: display_flips_def printf_def)
qed

lemma table_strings:
  "set (concat (map arg_strings (table_events xs k))) \<subseteq> flip_to_string ` set xs"
  by (auto simp: table_events_def row_events_def split: if_splits)

lemma flip_to_string_outcome: "v \<in> {HEADS, TAILS} \<Longrightarrow> flip_to_string v \<in> {''HEADS'', ''TAILS''}"
  by (auto simp: flip_to_string_def)

lemma display_flips_loop_frame:
  "display_flips_loop i w = Some w' \<Longrightarrow>
     flip_results w' = flip_results w \<and> num_flips w' = num_flips w \<and> heap w' = heap w \<and>
     alloc_fails w' = alloc_fails w \<and> alloc_calls w' = alloc_calls w \<and>
     rand_seq w' = rand_seq w \<and> rand_calls w' = rand_calls w \<and>
     length (stdin w') \<le> length (stdin w)"
proof (induction i w rule: display_flips_loop.induct)
  case (1 i w)
  show ?case
  proof (cases "i < num_flips w")
    case False
    with "1.prems" show ?thesis by (simp add: display_flips_loop.simps[of i w])
  next
    case True
    with "1.prems" obtain v where v: "load_flip i w = Some v"
      by (auto simp: display_flips_loop.simps[of i w] split: option.splits)
    let ?w1 = "(if (i + 1) mod PAUSE_INTERVAL = 0 \<and> i < num_flips w - 1 then pause else id)
                     (printf ''%6d  |   %d   | %s\<newline>'' [I (i + 1), I v, S (flip_to_string v)] w)"
    from "1.prems" True v have "display_flips_loop (i + 1) ?w1 = Some w'"
      by (simp add: display_flips_loop.simps[of i w])
    from "1.IH"[OF True v this]
    show ?thesis by (auto simp: pause_def printf_def clear_input_buffer_drop split: if_splits)
  qed
qed

lemma display_flips_frame:
  assumes "display_flips w = Done u w'"
  shows "flip_results w' = flip_results w" "num_flips w' = num_flips w" "heap w' = heap w"
    "length (stdin w') \<le> length (stdin w)"
proof -
  have "flip_results w' = flip_results w \<and> num_flips w' = num_flips w \<and> heap w' = heap w \<and>
        length (stdin w') \<le> length (stdin w)"
  proof (cases "num_flips w = 0")
    case True
    with assms show ?thesis by (auto simp: display_flips_def printf_def)
  next
    case False
    with assms obtain w1 where l: "display_flips_loop 0 w = Some w1"
      and w': "w' = printf ''Total flips displayed: %d\<newline>'' [I (num_flips w1)]
                     (printf ''========================\<newline>'' [] w1)"
      by (auto simp: display_flips_def split: option.splits)
    from display_flips_loop_frame[OF l] show ?thesis by (simp add: w' printf_def)
  qed
  then show "flip_results w' = flip_results w" "num_flips w' = num_flips w" "heap w' = heap w"
    "length (stdin w') \<le> length (stdin w)" by simp_all
qed

lemma statistics_frame:
  assumes "statistics w = Done u w'"
  shows "\<exists>evs. w' = w\<lparr>out := out w @ evs\<rparr> \<and> 0 \<notin> set (concat (map divisors evs)) \<and>
               invalid_choice \<notin> set evs"
proof (cases "num_flips w = 0")
  case True
  with assms have "w' = w\<lparr>out := out w @ [Printf ''No flips have been generated yet.\<newline>'' [],
        Printf ''Please use option 1 to generate flips first.\<newline>'' []]\<rparr>"
    by (auto simp: statistics_def printf_def)
  then show ?thesis by (intro exI[of _ "[Printf ''No flips have been generated yet.\<newline>'' [],
        Printf ''Please use option 1 to generate flips first.\<newline>'' []]"])
       (simp add: invalid_choice_def)
next
  case False
  with assms obtain c where "statistics_loop 0 initial_counters w = Some c" and
    "w' = w\<lparr>out := out w @
            [Printf ''FLIP DISTRIBUTION:\<newline>'' [],
             Printf ''==================\<newline>'' [],
             Printf ''Total Heads: %d (%.1f%%)\<newline>'' [I (total_heads c), Pct (total_heads c) (num_flips w)],
             Printf ''Total Tails: %d (%.1f%%)\<newline>'' [I (total_tails c), Pct (total_tails c) (num_flips w)],
             Printf ''\<newline>CONSECUTIVE SEQUENCE ANALYSIS:\<newline>'' [],
             Printf ''==============================\<newline>'' [],
             Printf ''Sequences of %d consecutive HEADS: %d\<newline>'' [I SEQUENCE_LENGTH, I (heads_sequences c)],
             Printf ''Sequences of %d consecutive TAILS: %d\<newline>'' [I SEQUENCE_LENGTH, I (tails_sequences c)],
             Printf ''Total consecutive sequences found: %d\<newline>'' [I (heads_sequences c + tails_sequences c)]]\<rparr>"
    by (auto simp: statistics_def printf_def split: option.splits)
  with False show ?thesis by (intro exI[of _ "[Printf ''FLIP DISTRIBUTION:\<newline>'' [],
             Printf ''==================\<newline>'' [],
             Printf ''Total Heads: %d (%.1f%%)\<newline>'' [I (total_heads c), Pct (total_heads c) (num_flips w)],
             Printf ''Total Tails: %d (%.1f%%)\<newline>'' [I (total_tails c), Pct (total_tails c) (num_flips w)],
             Printf ''\<newline>CONSECUTIVE SEQUENCE ANALYSIS:\<newline>'' [],
             Printf ''==============================\<newline>'' [],
             Printf ''Sequences of %d consecutive HEADS: %d\<newline>'' [I SEQUENCE_LENGTH, I (heads_sequences c)],
             Printf ''Sequences of %d consecutive TAILS: %d\<newline>'' [I SEQUENCE_LENGTH, I (tails_sequences c)],
             Printf ''Total consecutive sequences found: %d\<newline>'' [I (heads_sequences c + tails_sequences c)]]"])
       (simp add: invalid_choice_def)
qed

text \<open>
  C4. When \<open>num_flips\<close> is 0, which is the case when there is no buffer, \<open>display_flips\<close>
  and \<open>statistics\<close> write their message that there are no flips and return; nothing else
  changes. No call of \<open>statistics\<close> that returns has written a percentage with the
  divisor 0.
\<close>

theorem no_data_reports:
  "(num_flips w = 0 \<longrightarrow>
      display_flips w =
        Done () (w\<lparr>out := out w @ [Printf ''No flips have been generated yet.\<newline>'' []]\<rparr>) \<and>
      statistics w =
        Done () (w\<lparr>out := out w @
                   [Printf ''No flips have been generated yet.\<newline>'' [],
                    Printf ''Please use option 1 to generate flips first.\<newline>'' []]\<rparr>)) \<and>
   (session_inv w \<and> flip_results w = None \<longrightarrow> num_flips w = 0) \<and>
   (statistics w = Done u w' \<longrightarrow>
      0 \<notin> set (concat (map divisors (drop (length (out w)) (out w')))))"
proof -
  have "0 \<notin> set (concat (map divisors (drop (length (out w)) (out w'))))"
    if "statistics w = Done u w'"
  proof -
    from statistics_frame[OF that] obtain evs where
      "w' = w\<lparr>out := out w @ evs\<rparr>" "0 \<notin> set (concat (map divisors evs))" by blast
    then show ?thesis by simp
  qed
  moreover have "num_flips w = 0" if "session_inv w \<and> flip_results w = None"
    using that by (auto simp: session_inv_def)
  ultimately show ?thesis
    by (auto simp: display_flips_def statistics_def printf_def)
qed

theorem no_data_reports_witness:
  "display_flips (at_start [] (\<lambda>k. 0) (\<lambda>k. False)) =
     Done () ((at_start [] (\<lambda>k. 0) (\<lambda>k. False))
                \<lparr>out := [Printf ''No flips have been generated yet.\<newline>'' []]\<rparr>) \<and>
   statistics (at_start [] (\<lambda>k. 0) (\<lambda>k. False)) =
     Done () ((at_start [] (\<lambda>k. 0) (\<lambda>k. False))
                \<lparr>out := [Printf ''No flips have been generated yet.\<newline>'' [],
                         Printf ''Please use option 1 to generate flips first.\<newline>'' []]\<rparr>) \<and>
   session_inv (at_start [] (\<lambda>k. 0) (\<lambda>k. False)) \<and>
   flip_results (at_start [] (\<lambda>k. 0) (\<lambda>k. False)) = None \<and>
   num_flips (at_start [] (\<lambda>k. 0) (\<lambda>k. False)) = 0 \<and>
   (\<exists>w'. statistics (holding [0, 1, 1]) = Done () w' \<and>
         concat (map divisors (out w')) = [3, 3] \<and>
         0 \<notin> set (concat (map divisors (drop (length (out (holding [0, 1, 1]))) (out w')))))"
proof -
  let ?w' = "(holding [0, 1, 1])
                \<lparr>out := [Printf ''FLIP DISTRIBUTION:\<newline>'' [],
             Printf ''==================\<newline>'' [],
             Printf ''Total Heads: %d (%.1f%%)\<newline>'' [I 1, Pct 1 3],
             Printf ''Total Tails: %d (%.1f%%)\<newline>'' [I 2, Pct 2 3],
             Printf ''\<newline>CONSECUTIVE SEQUENCE ANALYSIS:\<newline>'' [],
             Printf ''==============================\<newline>'' [],
             Printf ''Sequences of %d consecutive HEADS: %d\<newline>'' [I 5, I 0],
             Printf ''Sequences of %d consecutive TAILS: %d\<newline>'' [I 5, I 0],
             Printf ''Total consecutive sequences found: %d\<newline>'' [I 0]]\<rparr>"
  have l: "statistics_loop (int 0) initial_counters (holding [0, 1, 1])
        = Some (statistics_fold initial_counters (drop 0 [0, 1, 1]))"
    by (rule statistics_loop_fold) (simp_all add: holding_def buffer_def block_at_def)
  have st: "statistics (holding [0, 1, 1]) = Done () ?w'"
    using l by (simp add: statistics_def holding_def printf_def initial_counters_def
                          statistics_body_def HEADS_def SEQUENCE_LENGTH_def)
  have "0 \<notin> set (concat (map divisors (drop (length (out (holding [0, 1, 1]))) (out ?w'))))"
    using no_data_reports[of "holding [0, 1, 1]" "()" ?w'] st by blast
  moreover have "concat (map divisors (out ?w')) = [3, 3]" by simp
  ultimately have "\<exists>w'. statistics (holding [0, 1, 1]) = Done () w' \<and>
         concat (map divisors (out w')) = [3, 3] \<and>
         0 \<notin> set (concat (map divisors (drop (length (out (holding [0, 1, 1]))) (out w'))))"
    using st by blast
  then show ?thesis
    using no_data_reports[of "at_start [] (\<lambda>k. 0) (\<lambda>k. False)"]
    by (simp add: at_start_def session_inv_def)
qed

lemma generated_outcomes:
  assumes "generate_flips w = Done n w1"
  shows "buffer (w1\<lparr>num_flips := n\<rparr>) = Some (map Some (random_flips (rand_seq w) (rand_calls w) (nat n)))"
    and "num_flips (w1\<lparr>num_flips := n\<rparr>) = int (length (random_flips (rand_seq w) (rand_calls w) (nat n)))"
    and "random_flips (rand_seq w) (rand_calls w) (nat n) \<noteq> []"
    and "MIN_FLIPS \<le> n" and "n \<le> MAX_FLIPS"
proof -
  from assms obtain ls rest where n: "MIN_FLIPS \<le> n" "n \<le> MAX_FLIPS" and
    w1: "w1 = w\<lparr>flip_results := Some (length (heap w)),
                heap := released w @ [Some (map Some (random_flips (rand_seq w) (rand_calls w) (nat n)))],
                alloc_calls := Suc (alloc_calls w),
                rand_calls := rand_calls w + nat n,
                stdin := rest, out := gen_out w ls\<rparr>"
    by (rule generate_flips_Done)
  show "buffer (w1\<lparr>num_flips := n\<rparr>) = Some (map Some (random_flips (rand_seq w) (rand_calls w) (nat n)))"
    by (simp add: w1 buffer_def block_at_def nth_append)
  show "num_flips (w1\<lparr>num_flips := n\<rparr>) = int (length (random_flips (rand_seq w) (rand_calls w) (nat n)))"
    using n by (simp add: random_flips_outcomes MIN_FLIPS_def)
  have "length (random_flips (rand_seq w) (rand_calls w) (nat n)) = nat n"
    by (simp add: random_flips_outcomes)
  then show "random_flips (rand_seq w) (rand_calls w) (nat n) \<noteq> []"
    using n by (auto simp: MIN_FLIPS_def)
  show "MIN_FLIPS \<le> n" "n \<le> MAX_FLIPS" using n by simp_all
qed

text \<open>
  C10. \<open>flip_to_string\<close> is defined for every integer: \<open>''HEADS''\<close> for 0, \<open>''TAILS''\<close> for 1,
  \<open>''UNKNOWN''\<close> for the rest. After a generation, \<open>display_flips\<close> returns, having written
  one line for each flip, and the only strings among the arguments written are
  \<open>''HEADS''\<close> and \<open>''TAILS''\<close>.
\<close>

theorem display_never_unknown:
  assumes "generate_flips w = Done n w1"
  shows "flip_to_string v =
           (if v = 0 then ''HEADS'' else if v = 1 then ''TAILS'' else ''UNKNOWN'') \<and>
         display_flips (w1\<lparr>num_flips := n\<rparr>) =
           Done () (w1\<lparr>num_flips := n,
                      stdin := drop (pauses (nat n) 0) (stdin w1),
                      out := out w1 @
                        table_events (random_flips (rand_seq w) (rand_calls w) (nat n)) 0 @
                        [Printf ''========================\<newline>'' [],
                         Printf ''Total flips displayed: %d\<newline>'' [I n]]\<rparr>) \<and>
         set (concat (map arg_strings
                (table_events (random_flips (rand_seq w) (rand_calls w) (nat n)) 0 @
                 [Printf ''========================\<newline>'' [],
                  Printf ''Total flips displayed: %d\<newline>'' [I n]])))
           \<subseteq> {''HEADS'', ''TAILS''}"
proof -
  let ?xs = "random_flips (rand_seq w) (rand_calls w) (nat n)"
  note g = generated_outcomes[OF assms]
  have len: "length ?xs = nat n" "int (length ?xs) = n"
    using g(4) by (simp_all add: random_flips_outcomes MIN_FLIPS_def)
  have "display_flips (w1\<lparr>num_flips := n\<rparr>) =
           Done () ((w1\<lparr>num_flips := n\<rparr>)\<lparr>stdin := drop (pauses (length ?xs) 0) (stdin (w1\<lparr>num_flips := n\<rparr>)),
                      out := out (w1\<lparr>num_flips := n\<rparr>) @ table_events ?xs 0 @
                        [Printf ''========================\<newline>'' [],
                         Printf ''Total flips displayed: %d\<newline>'' [I (int (length ?xs))]]\<rparr>)"
    using g(1,2,3) by (rule display_flips_table)
  then have d: "display_flips (w1\<lparr>num_flips := n\<rparr>) =
           Done () (w1\<lparr>num_flips := n,
                      stdin := drop (pauses (nat n) 0) (stdin w1),
                      out := out w1 @ table_events ?xs 0 @
                        [Printf ''========================\<newline>'' [],
                         Printf ''Total flips displayed: %d\<newline>'' [I n]]\<rparr>)"
    unfolding len(2) unfolding len(1) by simp
  have "flip_to_string ` set ?xs \<subseteq> {''HEADS'', ''TAILS''}"
    using random_flips_outcomes(2)[of "rand_seq w" "rand_calls w" "nat n"] flip_to_string_outcome
    by blast
  with table_strings[of ?xs 0]
  have s: "set (concat (map arg_strings (table_events ?xs 0 @
                 [Printf ''========================\<newline>'' [],
                  Printf ''Total flips displayed: %d\<newline>'' [I n]]))) \<subseteq> {''HEADS'', ''TAILS''}"
    by simp
  have "flip_to_string v = (if v = 0 then ''HEADS'' else if v = 1 then ''TAILS'' else ''UNKNOWN'')"
    by (simp add: flip_to_string_def HEADS_def TAILS_def)
  with d s show ?thesis by blast
qed

theorem display_never_unknown_witness:
  "\<exists>w1. generate_flips (at_start [Num 3] (\<lambda>k. k) (\<lambda>k. False)) = Done 3 w1 \<and>
        display_flips (w1\<lparr>num_flips := 3\<rparr>) =
          Done () (w1\<lparr>num_flips := 3,
                     out := out w1 @
                       [Printf ''%6d  |   %d   | %s\<newline>'' [I 1, I 0, S ''HEADS''],
                        Printf ''%6d  |   %d   | %s\<newline>'' [I 2, I 1, S ''TAILS''],
                        Printf ''%6d  |   %d   | %s\<newline>'' [I 3, I 0, S ''HEADS''],
                        Printf ''========================\<newline>'' [],
                        Printf ''Total flips displayed: %d\<newline>'' [I 3]]\<rparr>)"
proof -
  let ?w = "at_start [Num 3] (\<lambda>k. k) (\<lambda>k. False)"
  let ?w1 = "?w\<lparr>flip_results := Some 0, heap := [Some [Some 0, Some 1, Some 0]], alloc_calls := 1,
                 rand_calls := 3, stdin := [], out := gen_out ?w []\<rparr>"
  have g: "generate_flips ?w = Done 3 ?w1"
    using generate_flips_explicit[where ls = "[]" and n = 3 and w = ?w and rest = "[]"]
    by (simp add: at_start_def MIN_FLIPS_def MAX_FLIPS_def pointer_ok_def released_def
                  random_flips_def upt_rec)
  from display_never_unknown[OF g]
  have "display_flips (?w1\<lparr>num_flips := 3\<rparr>) =
          Done () (?w1\<lparr>num_flips := 3,
                     out := out ?w1 @
                       [Printf ''%6d  |   %d   | %s\<newline>'' [I 1, I 0, S ''HEADS''],
                        Printf ''%6d  |   %d   | %s\<newline>'' [I 2, I 1, S ''TAILS''],
                        Printf ''%6d  |   %d   | %s\<newline>'' [I 3, I 0, S ''HEADS''],
                        Printf ''========================\<newline>'' [],
                        Printf ''Total flips displayed: %d\<newline>'' [I 3]]\<rparr>)"
    by (simp add: at_start_def random_flips_def upt_rec table_events_def row_events_def
                  pause_after_def pauses_def PAUSE_INTERVAL_def flip_to_string_def HEADS_def
                  TAILS_def)
  with g show ?thesis by blast
qed

subsection \<open>The menu\<close>

lemma session_inv_frame:
  "flip_results w' = flip_results w \<Longrightarrow> num_flips w' = num_flips w \<Longrightarrow> heap w' = heap w \<Longrightarrow>
   session_inv w' = session_inv w"
  by (simp add: session_inv_def block_at_def split: option.splits)

lemma session_inv_updates [simp]:
  "session_inv (w\<lparr>stdin := s\<rparr>) = session_inv w"
  "session_inv (w\<lparr>out := ev\<rparr>) = session_inv w"
  by (rule session_inv_frame; simp)+

lemma session_inv_buffer:
  "buffer w = Some blk \<Longrightarrow> int (length blk) = num_flips w \<Longrightarrow> MIN_FLIPS \<le> num_flips w \<Longrightarrow>
   num_flips w \<le> MAX_FLIPS \<Longrightarrow> session_inv w"
  by (auto simp: session_inv_def buffer_def split: option.splits)

lemma menu_prompt:
  assumes "\<forall>l \<in> set ls. \<not> accepted 0 3 l" and "0 \<le> stored t" and "stored t \<le> 3"
    and "stdin w = ls @ Num t # rest"
  shows "get_valid_input 0 3 (printf ''Enter your choice (0-3): '' [] (display_menu w)) =
           Done (stored t)
             (w\<lparr>stdin := rest,
                out := out w @ menu_text @
                       replicate (length (filter (\<lambda>l. l \<noteq> Blank) ls)) (prompt 0 3)\<rparr>)"
proof -
  let ?w = "printf ''Enter your choice (0-3): '' [] (display_menu w)"
  have "stdin ?w = ls @ Num t # rest"
    using assms(4) by (simp add: display_menu_def printf_def)
  from get_valid_input_retry[OF assms(1-3) this] show ?thesis
    by (cases w) (simp add: display_menu_def printf_def menu_text_def)
qed

lemma menu_prompt_choice:
  assumes "\<forall>l \<in> set ls. \<not> accepted 0 3 l" and "0 \<le> c" and "c \<le> 3"
    and "stdin w = ls @ Num c # rest"
  shows "get_valid_input 0 3 (printf ''Enter your choice (0-3): '' [] (display_menu w)) =
           Done c
             (w\<lparr>stdin := rest,
                out := out w @ menu_text @
                       replicate (length (filter (\<lambda>l. l \<noteq> Blank) ls)) (prompt 0 3)\<rparr>)"
  using menu_prompt[OF assms(1) _ _ assms(4)] assms(2,3) by (simp add: stored_choice)

lemma and_then_Done:
  assumes "and_then r f = Done x w'"
  obtains y w1 where "r = Done y w1" "f y w1 = Done x w'"
  using assms by (cases r) (simp_all add: and_then_def)

lemma menu_dispatch_unfold:
  "menu_dispatch c w =
     and_then
       (if c = 1
        then and_then (generate_flips (printf ''\<newline>'' [] w))
               (\<lambda>r w3. Done ()
                  (if r > 0
                   then printf ''\<newline>Successfully generated %d coin flips!\<newline>'' [I r]
                          (w3\<lparr>num_flips := r\<rparr>)
                   else w3\<lparr>num_flips := r\<rparr>))
        else if c = 2 then display_flips (printf ''\<newline>'' [] w)
        else if c = 3 then statistics (printf ''\<newline>'' [] w)
        else Done ()
               (printf (if c = 0 then ''Thank you for using the Coin Flip Simulator!\<newline>''
                        else ''Invalid choice. Please try again.\<newline>'') []
                  (printf ''\<newline>'' [] w)))
       (\<lambda>_ w5. Done c (if c \<noteq> 0 then clear_screen (pause w5) else w5))"
proof -
  have "(\<lambda>r w3. Done ()
                     (let w4 = w3\<lparr>num_flips := r\<rparr>
                      in if num_flips w4 > 0
                         then printf ''\<newline>Successfully generated %d coin flips!\<newline>''
                                [I (num_flips w4)] w4
                         else w4))
        = (\<lambda>r w3. Done ()
                  (if r > 0
                   then printf ''\<newline>Successfully generated %d coin flips!\<newline>'' [I r]
                          (w3\<lparr>num_flips := r\<rparr>)
                   else w3\<lparr>num_flips := r\<rparr>))"
    by (intro ext) (simp add: Let_def)
  then show ?thesis
    unfolding menu_dispatch_def Let_def by (cases "c = 0") simp_all
qed

lemma menu_dispatch_Done:
  assumes "menu_dispatch c w = Done c' w'"
  shows "c' = c \<and> (session_inv w \<longrightarrow> session_inv w') \<and> length (stdin w') \<le> length (stdin w)"
proof -
  let ?w2 = "printf ''\<newline>'' [] w"
  let ?fin = "\<lambda>w5. if c \<noteq> 0 then clear_screen (pause w5) else w5"
  have fin: "session_inv (?fin w5) = session_inv w5 \<and> length (stdin (?fin w5)) \<le> length (stdin w5)" for w5
    by (simp add: clear_screen_def system_def pause_def printf_def clear_input_buffer_drop)
  have w2: "session_inv ?w2 = session_inv w" "stdin ?w2 = stdin w"
    by (simp_all add: printf_def)
  from assms(1)[unfolded menu_dispatch_unfold] obtain u w5 where
    body: "(if c = 1
        then and_then (generate_flips ?w2)
               (\<lambda>r w3. Done ()
                  (if r > 0
                   then printf ''\<newline>Successfully generated %d coin flips!\<newline>'' [I r]
                          (w3\<lparr>num_flips := r\<rparr>)
                   else w3\<lparr>num_flips := r\<rparr>))
        else if c = 2 then display_flips ?w2
        else if c = 3 then statistics ?w2
        else Done ()
               (printf (if c = 0 then ''Thank you for using the Coin Flip Simulator!\<newline>''
                        else ''Invalid choice. Please try again.\<newline>'') []
                  ?w2)) = Done u w5"
    and r: "Done c (?fin w5) = Done c' w'"
    by (rule and_then_Done)
  from r have r': "c' = c" "w' = ?fin w5" by auto
  have "(session_inv w \<longrightarrow> session_inv w5) \<and> length (stdin w5) \<le> length (stdin w)"
  proof -
    consider (gen) "c = 1" | (disp) "c = 2" | (stat) "c = 3" | (other) "c \<noteq> 1" "c \<noteq> 2" "c \<noteq> 3"
      by blast
    then show ?thesis
    proof cases
      case gen
      with body have "and_then (generate_flips ?w2)
               (\<lambda>r w3. Done ()
                  (if r > 0
                   then printf ''\<newline>Successfully generated %d coin flips!\<newline>'' [I r]
                          (w3\<lparr>num_flips := r\<rparr>)
                   else w3\<lparr>num_flips := r\<rparr>)) = Done u w5" by simp
      then obtain n w3 where g: "generate_flips ?w2 = Done n w3"
        and w5: "Done () (if n > 0
                   then printf ''\<newline>Successfully generated %d coin flips!\<newline>'' [I n]
                          (w3\<lparr>num_flips := n\<rparr>)
                   else w3\<lparr>num_flips := n\<rparr>) = Done u w5"
        by (rule and_then_Done)
      let ?w4 = "w3\<lparr>num_flips := n\<rparr>"
      note o = generated_outcomes[OF g]
      have "int (length (map Some (random_flips (rand_seq ?w2) (rand_calls ?w2) (nat n)))) = num_flips ?w4"
        using o(2) by simp
      with o(1) have i4: "session_inv ?w4"
        by (rule session_inv_buffer) (use o(4,5) in simp_all)
      from g obtain ls t rest where sw: "stdin ?w2 = ls @ Num t # rest" and
        "w3 = ?w2\<lparr>flip_results := Some (length (heap ?w2)),
                heap := released ?w2 @ [Some (map Some (random_flips (rand_seq ?w2) (rand_calls ?w2) (nat n)))],
                alloc_calls := Suc (alloc_calls ?w2),
                rand_calls := rand_calls ?w2 + nat n,
                stdin := rest, out := gen_out ?w2 ls\<rparr>"
        by (rule generate_flips_Done)
      then have "stdin w3 = rest" by simp
      with sw w2(2) have l4: "length (stdin ?w4) \<le> length (stdin w)" by simp
      from w5 have "w5 = (if n > 0
                   then printf ''\<newline>Successfully generated %d coin flips!\<newline>'' [I n] ?w4
                   else ?w4)" by simp
      then have "session_inv w5 = session_inv ?w4" "stdin w5 = stdin ?w4"
        by (simp_all add: printf_def)
      with i4 l4 show ?thesis by simp
    next
      case disp
      with body have d: "display_flips ?w2 = Done u w5" by simp
      from display_flips_frame[OF d] w2 show ?thesis
        using session_inv_frame[of w5 ?w2] by simp
    next
      case stat
      with body have d: "statistics ?w2 = Done u w5" by simp
      from statistics_frame[OF d] obtain evs where "w5 = ?w2\<lparr>out := out ?w2 @ evs\<rparr>" by blast
      then show ?thesis using w2 by simp
    next
      case other
      with body have "w5 = printf (if c = 0 then ''Thank you for using the Coin Flip Simulator!\<newline>''
                        else ''Invalid choice. Please try again.\<newline>'') [] ?w2" by simp
      then show ?thesis using w2 by (simp add: printf_def)
    qed
  qed
  with r' fin[of w5] show ?thesis by simp
qed

lemma menu_round_Done:
  assumes "menu_round w = Done c w'"
  shows "session_inv w \<Longrightarrow> session_inv w'" and "length (stdin w') < length (stdin w)"
    and "0 \<le> c" and "c \<le> 3"
proof -
  let ?w0 = "printf ''Enter your choice (0-3): '' [] (display_menu w)"
  from assms(1)[unfolded menu_round_def] obtain c1 w1 where
    g: "get_valid_input 0 3 ?w0 = Done c1 w1" and d: "menu_dispatch c1 w1 = Done c w'"
    by (rule and_then_Done)
  note v = get_valid_input_Done[OF g]
  from v(4) obtain k where w1: "w1 = ?w0\<lparr>stdin := stdin w1, out := out ?w0 @ replicate k (prompt 0 3)\<rparr>"
    by blast
  have "flip_results w1 = flip_results w" "num_flips w1 = num_flips w" "heap w1 = heap w"
    by (subst w1, simp add: display_menu_def printf_def)+
  then have "session_inv w1 = session_inv w" using session_inv_frame[of w1 w] by simp
  with menu_dispatch_Done[OF d] have r: "c = c1" "session_inv w \<longrightarrow> session_inv w'"
    "length (stdin w') \<le> length (stdin w1)"
    by simp_all
  have "stdin ?w0 = stdin w" by (simp add: display_menu_def printf_def)
  with v(3) r(3) have "length (stdin w') < length (stdin w)" by simp
  with r v(1,2) show "session_inv w \<Longrightarrow> session_inv w'" and "length (stdin w') < length (stdin w)"
    and "0 \<le> c" and "c \<le> 3"
    by simp_all
qed




















subsection \<open>The loop of main\<close>

text \<open>
  The \<^verbatim>\<open>do ... while (choice != 0)\<close> loop. Every round that returns has consumed a line of
  the input, so the loop ends or stops in a call that does not return.
\<close>

function main_loop :: "world \<Rightarrow> unit result" where
  "main_loop w =
     (case menu_round w of
        Loops \<Rightarrow> Loops
      | Exits c x \<Rightarrow> Exits c x
      | Fault \<Rightarrow> Fault
      | Done choice w1 \<Rightarrow> if choice \<noteq> 0 then main_loop w1 else Done () w1)"
  by pat_completeness auto

termination main_loop
  by (relation "measure (\<lambda>w. length (stdin w))") (auto dest: menu_round_Done(2))

declare main_loop.simps [simp del]

text \<open>
  \<open>main\<close> itself. \<^verbatim>\<open>srand(time(NULL))\<close> chooses the sequence \<open>rand_seq\<close> of the state
  that \<open>main\<close> is started in.
\<close>

definition main :: "world \<Rightarrow> int result" where
  "main w =
     and_then (main_loop (clear_screen w))
       (\<lambda>_ w1. case flip_results w1 of
                  None \<Rightarrow> Done 0 w1
                | Some p \<Rightarrow> (case free p w1 of None \<Rightarrow> Fault | Some w2 \<Rightarrow> Done 0 w2))"

lemma main_loop_inv:
  "session_inv w \<Longrightarrow> main_loop w = Done u w' \<Longrightarrow> session_inv w'"
proof (induction w rule: main_loop.induct)
  case (1 w)
  from "1.prems"(2) obtain c w1 where m: "menu_round w = Done c w1"
    by (auto simp: main_loop.simps[of w] split: result.splits)
  note i1 = menu_round_Done(1)[OF m "1.prems"(1)]
  show ?case
  proof (cases "c = 0")
    case True
    with m "1.prems"(2) have "w' = w1" by (simp add: main_loop.simps[of w])
    with i1 show ?thesis by simp
  next
    case False
    with m "1.prems"(2) have "main_loop w1 = Done u w'" by (simp add: main_loop.simps[of w])
    from "1.IH"[OF m False i1 this] show ?thesis .
  qed
qed

text \<open>
  C9. The session-state invariant (no buffer and \<open>num_flips = 0\<close>, or a live block of
  \<open>num_flips\<close> cells with \<open>MIN_FLIPS \<le> num_flips \<le> MAX_FLIPS\<close>) holds when \<open>main\<close> starts and
  is kept by every round of the menu that returns, whatever the operation chosen, and so
  by the whole loop. Without a buffer, \<open>statistics\<close> has nothing but its message to give.
  (A round that ends the process on a failed allocation returns no state; what the state is
  at that moment is the subject of C7.)
\<close>

theorem session_invariant_maintained:
  "session_inv (at_start ls rs af) \<and>
   (session_inv w \<and> menu_round w = Done choice w' \<longrightarrow> session_inv w') \<and>
   (session_inv w \<and> main_loop w = Done u w' \<longrightarrow> session_inv w') \<and>
   (session_inv w \<and> flip_results w = None \<longrightarrow>
      statistics w =
        Done () (w\<lparr>out := out w @
                   [Printf ''No flips have been generated yet.\<newline>'' [],
                    Printf ''Please use option 1 to generate flips first.\<newline>'' []]\<rparr>))"
proof -
  have "session_inv (at_start ls rs af)"
    by (simp add: session_inv_def at_start_def)
  moreover have "session_inv w'" if "session_inv w" "menu_round w = Done choice w'"
    using menu_round_Done(1)[OF that(2) that(1)] .
  moreover have "session_inv w'" if "session_inv w" "main_loop w = Done u w'"
    using that by (rule main_loop_inv)
  moreover have "statistics w =
        Done () (w\<lparr>out := out w @
                   [Printf ''No flips have been generated yet.\<newline>'' [],
                    Printf ''Please use option 1 to generate flips first.\<newline>'' []]\<rparr>)"
    if "session_inv w" "flip_results w = None"
    using that by (simp add: session_inv_def statistics_def printf_def)
  ultimately show ?thesis by blast
qed

lemma menu_round_started_generate:
  "menu_round (started [Num 1, Num 2, Blank]) =
     Done 1 ((started [])\<lparr>flip_results := Some 0, num_flips := 2, heap := [Some [Some 0, Some 0]],
                alloc_calls := 1, rand_calls := 2,
                out := menu_text @ [Printf ''\<newline>'' []] @
                       gen_out (started []) [] @
                       [Printf ''\<newline>Successfully generated %d coin flips!\<newline>'' [I 2],
                        Printf ''\<newline>Press Enter to continue...\<newline>'' [],
                        System ''clear'']\<rparr>)"
proof -
  let ?w = "started [Num 1, Num 2, Blank]"
  let ?w1 = "?w\<lparr>stdin := [Num 2, Blank], out := out ?w @ menu_text @
                            replicate (length (filter (\<lambda>l. l \<noteq> Blank) [])) (prompt 0 3)\<rparr>"
  have p: "get_valid_input 0 3 (printf ''Enter your choice (0-3): '' [] (display_menu ?w)) = Done 1 ?w1"
    by (rule menu_prompt_choice) (simp_all add: started_def at_start_def)
  let ?w2 = "printf ''\<newline>'' [] ?w1"
  have g: "generate_flips ?w2 = Done 2
             (?w2\<lparr>flip_results := Some (length (heap ?w2)),
                heap := released ?w2 @ [Some (map Some (random_flips (rand_seq ?w2) (rand_calls ?w2) (nat 2)))],
                alloc_calls := Suc (alloc_calls ?w2),
                rand_calls := rand_calls ?w2 + nat 2,
                stdin := [Blank], out := gen_out ?w2 []\<rparr>)"
    using generate_flips_explicit[where ls = "[]" and n = 2 and w = ?w2 and rest = "[Blank]"]
    by (simp add: started_def at_start_def MIN_FLIPS_def MAX_FLIPS_def pointer_ok_def printf_def)
  show ?thesis
    unfolding menu_round_def p and_then_def result.case menu_dispatch_unfold g
    by (simp add: started_def at_start_def printf_def released_def random_flips_def upt_rec
                  gen_out_def clear_screen_def system_def pause_def clear_input_buffer_def)
qed

lemma menu_round_started_exit:
  "menu_round (started [Num 0]) =
     Done 0 ((started [])\<lparr>out := menu_text @
               [Printf ''\<newline>'' [],
                Printf ''Thank you for using the Coin Flip Simulator!\<newline>'' []]\<rparr>)"
proof -
  have "get_valid_input 0 3
          (printf ''Enter your choice (0-3): '' [] (display_menu (started [Num 0]))) =
        Done 0 ((started [Num 0])\<lparr>stdin := [],
                     out := out (started [Num 0]) @ menu_text @
                            replicate (length (filter (\<lambda>l. l \<noteq> Blank) [])) (prompt 0 3)\<rparr>)"
    by (rule menu_prompt_choice) (simp_all add: started_def at_start_def)
  then show ?thesis
    by (simp add: menu_round_def and_then_def menu_dispatch_unfold started_def at_start_def
                  printf_def)
qed

theorem session_invariant_maintained_witness:
  "session_inv (started [Num 1, Num 2, Blank]) \<and>
   (\<exists>w'. menu_round (started [Num 1, Num 2, Blank]) = Done 1 w' \<and> session_inv w' \<and>
         num_flips w' = 2 \<and> buffer w' = Some [Some 0, Some 0] \<and> stdin w' = []) \<and>
   (\<exists>w'. main_loop (started [Num 0]) = Done () w' \<and> session_inv w' \<and> num_flips w' = 0) \<and>
   flip_results (started []) = None \<and>
   statistics (started []) =
     Done () ((started [])\<lparr>out :=
                [Printf ''No flips have been generated yet.\<newline>'' [],
                 Printf ''Please use option 1 to generate flips first.\<newline>'' []]\<rparr>)"
proof -
  let ?w' = "(started [])\<lparr>flip_results := Some 0, num_flips := 2, heap := [Some [Some 0, Some 0]],
                alloc_calls := 1, rand_calls := 2,
                out := menu_text @ [Printf ''\<newline>'' []] @
                       gen_out (started []) [] @
                       [Printf ''\<newline>Successfully generated %d coin flips!\<newline>'' [I 2],
                        Printf ''\<newline>Press Enter to continue...\<newline>'' [],
                        System ''clear'']\<rparr>"
  let ?w0 = "(started [])\<lparr>out := menu_text @
               [Printf ''\<newline>'' [],
                Printf ''Thank you for using the Coin Flip Simulator!\<newline>'' []]\<rparr>"
  note m = menu_round_started_generate
  have s: "session_inv (started ls)" for ls
    using session_invariant_maintained[of ls "\<lambda>k. 0" "\<lambda>k. False"]
    by (simp add: started_def)
  from session_invariant_maintained
         [where w = "started [Num 1, Num 2, Blank]" and choice = 1 and w' = ?w'] m s
  have "session_inv ?w'" by blast
  moreover have "num_flips ?w' = 2" "buffer ?w' = Some [Some 0, Some 0]" "stdin ?w' = []"
    by (simp_all add: buffer_def block_at_def started_def at_start_def)
  moreover have l: "main_loop (started [Num 0]) = Done () ?w0"
    by (simp add: main_loop.simps[of "started [Num 0]"] menu_round_started_exit)
  moreover from session_invariant_maintained
         [where w = "started [Num 0]" and u = "()" and w' = ?w0] l s
  have "session_inv ?w0" by blast
  moreover have "num_flips ?w0 = 0" "flip_results (started []) = None"
    by (simp_all add: started_def at_start_def)
  moreover from session_invariant_maintained[where w = "started []"] s this(2)
  have "statistics (started []) =
     Done () ((started [])\<lparr>out := out (started []) @
                [Printf ''No flips have been generated yet.\<newline>'' [],
                 Printf ''Please use option 1 to generate flips first.\<newline>'' []]\<rparr>)"
    by blast
  then have "statistics (started []) =
     Done () ((started [])\<lparr>out :=
                [Printf ''No flips have been generated yet.\<newline>'' [],
                 Printf ''Please use option 1 to generate flips first.\<newline>'' []]\<rparr>)"
    by (simp add: started_def at_start_def)
  ultimately show ?thesis using s m by blast
qed

subsection \<open>No undefined behaviour\<close>

text \<open>
  With the invariant and a buffer of outcomes, no operation of the menu makes an invalid
  memory access, and both properties hold again afterwards. So \<open>main\<close>, started in its
  initial state, has one of three fates: it reads input for ever, it ends with
  \<open>EXIT_FAILURE\<close> on a failed allocation, or it returns 0 with its buffer freed.
\<close>

lemma present_buffer:
  assumes "session_inv w" and "outcomes_only w" and "num_flips w \<noteq> 0"
  obtains xs where "buffer w = Some (map Some xs)" "num_flips w = int (length xs)" "xs \<noteq> []"
    "set xs \<subseteq> {HEADS, TAILS}"
proof -
  from assms(1,3) obtain blk where b: "buffer w = Some blk" "int (length blk) = num_flips w"
    by (auto simp: session_inv_def buffer_def split: option.splits)
  with assms(2) have all: "\<forall>c \<in> set blk. c = Some HEADS \<or> c = Some TAILS"
    by (simp add: outcomes_only_def list_all_iff)
  then have "map Some (map the blk) = blk"
    by (induction blk) auto
  moreover have "set (map the blk) \<subseteq> {HEADS, TAILS}" using all by auto
  moreover have "map the blk \<noteq> []" using b(2) assms(3) by auto
  ultimately show ?thesis using b that[of "map the blk"] by simp
qed

lemma outcomes_only_frame:
  "flip_results w' = flip_results w \<Longrightarrow> heap w' = heap w \<Longrightarrow> outcomes_only w' = outcomes_only w"
  by (simp add: outcomes_only_def buffer_def block_at_def split: option.splits)

lemma outcomes_only_updates [simp]:
  "outcomes_only (w\<lparr>stdin := s\<rparr>) = outcomes_only w"
  "outcomes_only (w\<lparr>out := ev\<rparr>) = outcomes_only w"
  by (rule outcomes_only_frame; simp)+

lemma pointer_ok_session: "session_inv w \<Longrightarrow> pointer_ok w"
  by (auto simp: session_inv_def pointer_ok_def split: option.splits)

lemma generate_flips_defined:
  assumes "pointer_ok w"
  shows "generate_flips w \<noteq> Fault"
proof (cases MIN_FLIPS MAX_FLIPS "flips_prompt w" rule: get_valid_input_cases)
  case Never
  then show ?thesis by (simp add: generate_flips_def and_then_def flips_prompt_def)
next
  case (Valid ls v rest)
  have "stdin w = ls @ Num v # rest"
    using Valid(1) by (simp add: flips_prompt_def printf_def)
  from generate_flips_stored[OF Valid(2,3,4) this assms] show ?thesis
    by (simp split: if_splits)
qed

lemma statistics_defined:
  assumes "session_inv w" and "outcomes_only w"
  shows "\<exists>w'. statistics w = Done () w'"
proof (cases "num_flips w = 0")
  case True
  then show ?thesis by (simp add: statistics_def)
next
  case False
  with assms obtain xs where x: "buffer w = Some (map Some xs)" "num_flips w = int (length xs)"
    by (rule present_buffer)
  have "statistics_loop (int 0) initial_counters w = Some (statistics_fold initial_counters (drop 0 xs))"
    using x by (rule statistics_loop_fold) simp
  with False show ?thesis by (simp add: statistics_def)
qed

lemma display_flips_defined:
  assumes "session_inv w" and "outcomes_only w"
  shows "\<exists>w'. display_flips w = Done () w'"
proof (cases "num_flips w = 0")
  case True
  then show ?thesis by (simp add: display_flips_def)
next
  case False
  with assms obtain xs where x: "buffer w = Some (map Some xs)" "num_flips w = int (length xs)"
    "xs \<noteq> []"
    by (rule present_buffer)
  from display_flips_table[OF x] show ?thesis by simp
qed

lemma outcomes_only_calls [simp]:
  "outcomes_only (printf f a w) = outcomes_only w"
  "outcomes_only (pause w) = outcomes_only w"
  "outcomes_only (clear_screen w) = outcomes_only w"
  by (simp_all add: printf_def pause_def clear_screen_def system_def clear_input_buffer_drop)

lemma session_inv_calls [simp]:
  "session_inv (printf f a w) = session_inv w"
  "session_inv (pause w) = session_inv w"
  "session_inv (clear_screen w) = session_inv w"
  by (simp_all add: printf_def pause_def clear_screen_def system_def clear_input_buffer_drop)

lemma menu_dispatch_defined:
  assumes "session_inv w" and "outcomes_only w"
  shows "menu_dispatch c w \<noteq> Fault"
    and "menu_dispatch c w = Done c' w' \<Longrightarrow> outcomes_only w'"
proof -
  let ?w2 = "printf ''\<newline>'' [] w"
  have w2: "session_inv ?w2" "outcomes_only ?w2" "pointer_ok ?w2"
    using assms pointer_ok_session[OF assms(1)] by simp_all
  consider (gen) "c = 1" | (disp) "c = 2" | (stat) "c = 3" | (other) "c \<noteq> 1" "c \<noteq> 2" "c \<noteq> 3"
    by blast
  then have "menu_dispatch c w \<noteq> Fault \<and> (menu_dispatch c w = Done c' w' \<longrightarrow> outcomes_only w')"
  proof cases
    case gen
    show ?thesis
    proof (cases "generate_flips ?w2")
      case (Done n w3)
      note o = generated_outcomes[OF Done]
      have "list_all (\<lambda>c. c = Some HEADS \<or> c = Some TAILS)
              (map Some (random_flips (rand_seq ?w2) (rand_calls ?w2) (nat n)))"
        using random_flips_outcomes(2)[of "rand_seq ?w2" "rand_calls ?w2" "nat n"]
        by (auto simp: list_all_iff)
      with o(1) have "outcomes_only (w3\<lparr>num_flips := n\<rparr>)" by (simp add: outcomes_only_def)
      then show ?thesis using gen Done
        by (auto simp: menu_dispatch_unfold and_then_def)
    next
      case Fault
      with generate_flips_defined[OF w2(3)] show ?thesis by simp
    qed (simp_all add: gen menu_dispatch_unfold and_then_def)
  next
    case disp
    from display_flips_defined[OF w2(1,2)] obtain w5 where d: "display_flips ?w2 = Done () w5" by blast
    from display_flips_frame[OF d] have "outcomes_only w5 = outcomes_only ?w2"
      by (intro outcomes_only_frame) simp_all
    with w2(2) have "outcomes_only w5" by simp
    with d disp show ?thesis
      by (auto simp: menu_dispatch_unfold and_then_def)
  next
    case stat
    from statistics_defined[OF w2(1,2)] obtain w5 where d: "statistics ?w2 = Done () w5" by blast
    from statistics_frame[OF d] obtain evs where "w5 = ?w2\<lparr>out := out ?w2 @ evs\<rparr>" by blast
    then have "outcomes_only w5 = outcomes_only ?w2" by simp
    with w2(2) have "outcomes_only w5" by simp
    with d stat show ?thesis
      by (auto simp: menu_dispatch_unfold and_then_def)
  next
    case other
    then show ?thesis using assms(2)
      by (auto simp: menu_dispatch_unfold and_then_def)
  qed
  then show "menu_dispatch c w \<noteq> Fault"
    and "menu_dispatch c w = Done c' w' \<Longrightarrow> outcomes_only w'" by simp_all
qed


lemma menu_round_defined:
  assumes "session_inv w" and "outcomes_only w"
  shows "menu_round w \<noteq> Fault" and "menu_round w = Done c w' \<Longrightarrow> outcomes_only w'"
proof -
  let ?w0 = "printf ''Enter your choice (0-3): '' [] (display_menu w)"
  have "menu_round w \<noteq> Fault \<and> (menu_round w = Done c w' \<longrightarrow> outcomes_only w')"
  proof (cases "0::int" "3::int" ?w0 rule: get_valid_input_cases)
    case Never
    then show ?thesis by (simp add: menu_round_def and_then_def)
  next
    case (Valid ls v rest)
    let ?w1 = "?w0\<lparr>stdin := rest,
                     out := out ?w0 @ replicate (length (filter (\<lambda>l. l \<noteq> Blank) ls)) (prompt 0 3)\<rparr>"
    have "session_inv ?w1" "outcomes_only ?w1"
      using assms by (simp_all add: display_menu_def)
    from menu_dispatch_defined[OF this] Valid(5) show ?thesis
      by (simp add: menu_round_def and_then_def)
  qed
  then show "menu_round w \<noteq> Fault" and "menu_round w = Done c w' \<Longrightarrow> outcomes_only w'"
    by simp_all
qed

lemma main_loop_defined:
  "session_inv w \<Longrightarrow> outcomes_only w \<Longrightarrow> main_loop w \<noteq> Fault"
proof (induction w rule: main_loop.induct)
  case (1 w)
  show ?case
  proof (cases "menu_round w")
    case (Done c w1)
    note i1 = menu_round_Done(1)[OF Done "1.prems"(1)]
      and o1 = menu_round_defined(2)[OF "1.prems" Done]
    show ?thesis
    proof (cases "c = 0")
      case True
      with Done show ?thesis by (simp add: main_loop.simps[of w])
    next
      case False
      with Done "1.IH"[OF Done False i1 o1] show ?thesis by (simp add: main_loop.simps[of w])
    qed
  next
    case Fault
    with menu_round_defined(1)[OF "1.prems"] show ?thesis by simp
  qed (simp_all add: main_loop.simps[of w])
qed

lemma no_exit_calls:
  "display_flips w \<noteq> Exits c x" "statistics w \<noteq> Exits c x"
  by (simp_all add: display_flips_def statistics_def split: option.splits)

lemma main_loop_exit_status:
  "main_loop w = Exits c x \<Longrightarrow> c = EXIT_FAILURE"
proof (induction w rule: main_loop.induct)
  case (1 w)
  show ?case
  proof (cases "menu_round w")
    case (Done ch w1)
    with "1.prems" have "ch \<noteq> 0" "main_loop w1 = Exits c x"
      by (auto simp: main_loop.simps[of w] split: if_splits)
    with "1.IH"[OF Done] show ?thesis by simp
  next
    case (Exits c1 x1)
    with "1.prems" have e: "menu_round w = Exits c x" by (simp add: main_loop.simps[of w])
    let ?w0 = "printf ''Enter your choice (0-3): '' [] (display_menu w)"
    from e obtain ch w1 where "menu_dispatch ch w1 = Exits c x"
      by (cases "get_valid_input 0 3 ?w0")
         (auto simp: menu_round_def and_then_def get_valid_input_no_exit)
    then have g: "ch = 1" "generate_flips (printf ''\<newline>'' [] w1) = Exits c x"
      by (auto simp: menu_dispatch_unfold and_then_def no_exit_calls split: if_splits result.splits)
    let ?w2 = "printf ''\<newline>'' [] w1"
    show ?thesis
    proof (cases MIN_FLIPS MAX_FLIPS "flips_prompt ?w2" rule: get_valid_input_cases)
      case Never
      with g(2) show ?thesis by (simp add: generate_flips_def and_then_def flips_prompt_def)
    next
      case (Valid ls v rest)
      with g(2) show ?thesis
        by (auto simp: generate_flips_def and_then_def flips_prompt_def Let_def
                 split: option.splits prod.splits if_splits)
    qed
  qed (use "1.prems" in \<open>simp_all add: main_loop.simps[of w]\<close>)
qed

lemma main_outcomes:
  "main (at_start ls rs af) \<noteq> Fault \<and>
   (main (at_start ls rs af) = Exits c x \<longrightarrow> c = EXIT_FAILURE) \<and>
   (main (at_start ls rs af) = Done r w' \<longrightarrow> r = 0 \<and> buffer w' = None)"
proof -
  let ?w = "clear_screen (at_start ls rs af)"
  have "session_inv (at_start ls rs af)" "outcomes_only (at_start ls rs af)"
    by (simp_all add: session_inv_def outcomes_only_def buffer_def at_start_def)
  then have i: "session_inv ?w" "outcomes_only ?w" by simp_all
  show ?thesis
  proof (cases "main_loop ?w")
    case (Done u w1)
    from main_loop_inv[OF i(1) Done] have ok: "pointer_ok w1" by (rule pointer_ok_session)
    show ?thesis
    proof (cases "flip_results w1")
      case None
      with Done show ?thesis by (auto simp: main_def and_then_def buffer_def)
    next
      case (Some p)
      with ok obtain blk where b: "block_at w1 p = Some blk" by (auto simp: pointer_ok_def)
      then have "p < length (heap w1)" by (simp add: block_at_def split: if_splits)
      then have "buffer (w1\<lparr>heap := (heap w1)[p := None]\<rparr>) = None"
        using Some by (simp add: buffer_def block_at_def)
      with Done Some b show ?thesis by (auto simp: main_def and_then_def free_def)
    qed
  next
    case Fault
    with main_loop_defined[OF i] show ?thesis by simp
  next
    case (Exits c1 x1)
    with main_loop_exit_status[OF Exits] show ?thesis by (simp add: main_def and_then_def)
  qed (simp add: main_def and_then_def)
qed

end
